theory Spec2Isabelle
  imports Main "HOL-Library.Log_Nat"
begin

section \<open>JavaScript numbers\<close>

text \<open>
  Every \<^verbatim>\<open>number\<close> of the sketch (\<^verbatim>\<open>time\<close>, the components of a
  \<^verbatim>\<open>THREE.Vector2\<close>, the client coordinates of an event, the sides of a
  \<^verbatim>\<open>DOMRect\<close>) is an IEEE-754 binary64 value. A finite value is kept as a sign
  (\<open>True\<close> for negative) and a non-negative rational magnitude, so \<open>Dbl True 0\<close> is
  \<^verbatim>\<open>-0\<close>. The arithmetic operators compute the exact rational result and round it
  to the nearest binary64 value, ties to even, as ECMAScript prescribes.
\<close>

datatype number = NaN | Infinity bool | Dbl bool rat

text \<open>\<open>ilog2 m\<close> is the binary exponent of a positive rational: \<open>2 powi ilog2 m \<le> m < 2 powi (ilog2 m + 1)\<close>.\<close>

definition ilog2 :: "rat \<Rightarrow> int" where
  "ilog2 m = (if 1 \<le> m then bitlen \<lfloor>m\<rfloor> - 1 else - bitlen (\<lceil>1 / m\<rceil> - 1))"

text \<open>Rounding a rational to the nearest integer, ties to the even one.\<close>

definition rne :: "rat \<Rightarrow> int" where
  "rne k = (let f = \<lfloor>k\<rfloor>; r = k - of_int f in
     if r < 1 / 2 then f else if 1 / 2 < r then f + 1 else if even f then f else f + 1)"

text \<open>
  The exponent of the binary64 format is not below \<open>-1022\<close>: smaller magnitudes are
  subnormal and share the spacing \<open>2 powi (-1074)\<close>. With 53 significant bits, the
  spacing of the binary64 values around a positive \<open>m\<close> is \<open>ulp m\<close>.
\<close>

definition expo :: "rat \<Rightarrow> int" where
  "expo m = max (ilog2 m) (- 1022)"

definition ulp :: "rat \<Rightarrow> rat" where
  "ulp m = 2 powi (expo m - 52)"

text \<open>
  Rounding a non-negative magnitude to binary64: to the nearest multiple of the spacing,
  ties to even, and overflow (\<open>None\<close>) when the rounded magnitude reaches
  \<open>2 powi 1024\<close>.
\<close>

definition round_mag :: "rat \<Rightarrow> rat option" where
  "round_mag m = (if m = 0 then Some 0 else
     let r = of_int (rne (m / ulp m)) * ulp m
     in if 2 powi 1024 \<le> r then None else Some r)"

definition round_num :: "bool \<Rightarrow> rat \<Rightarrow> number" where
  "round_num s m = (case round_mag m of None \<Rightarrow> Infinity s | Some r \<Rightarrow> Dbl s r)"

text \<open>A decimal literal of the source text denotes the nearest binary64 value.\<close>

definition lit :: "rat \<Rightarrow> number" where
  "lit q = round_num (q < 0) \<bar>q\<bar>"

definition sval :: "bool \<Rightarrow> rat \<Rightarrow> rat" where
  "sval s m = (if s then - m else m)"

fun fneg :: "number \<Rightarrow> number" where
  "fneg NaN = NaN"
| "fneg (Infinity s) = Infinity (\<not> s)"
| "fneg (Dbl s m) = Dbl (\<not> s) m"

fun fadd :: "number \<Rightarrow> number \<Rightarrow> number" where
  "fadd NaN _ = NaN"
| "fadd _ NaN = NaN"
| "fadd (Infinity s) (Infinity t) = (if s = t then Infinity s else NaN)"
| "fadd (Infinity s) (Dbl _ _) = Infinity s"
| "fadd (Dbl _ _) (Infinity t) = Infinity t"
| "fadd (Dbl s a) (Dbl t b) =
     (let v = sval s a + sval t b in
      if v = 0 then Dbl (s \<and> t) 0 else round_num (v < 0) \<bar>v\<bar>)"

definition fsub :: "number \<Rightarrow> number \<Rightarrow> number" where
  "fsub a b = fadd a (fneg b)"

fun fmul :: "number \<Rightarrow> number \<Rightarrow> number" where
  "fmul NaN _ = NaN"
| "fmul _ NaN = NaN"
| "fmul (Infinity s) (Infinity t) = Infinity (s \<noteq> t)"
| "fmul (Infinity s) (Dbl t b) = (if b = 0 then NaN else Infinity (s \<noteq> t))"
| "fmul (Dbl s a) (Infinity t) = (if a = 0 then NaN else Infinity (s \<noteq> t))"
| "fmul (Dbl s a) (Dbl t b) = round_num (s \<noteq> t) (a * b)"

fun fdiv :: "number \<Rightarrow> number \<Rightarrow> number" where
  "fdiv NaN _ = NaN"
| "fdiv _ NaN = NaN"
| "fdiv (Infinity s) (Infinity t) = NaN"
| "fdiv (Infinity s) (Dbl t b) = Infinity (s \<noteq> t)"
| "fdiv (Dbl s a) (Infinity t) = Dbl (s \<noteq> t) 0"
| "fdiv (Dbl s a) (Dbl t b) =
     (if b = 0 then (if a = 0 then NaN else Infinity (s \<noteq> t))
      else round_num (s \<noteq> t) (a / b))"

text \<open>The comparison \<^verbatim>\<open><=\<close> of two numbers; it is false as soon as one side is \<^verbatim>\<open>NaN\<close>.\<close>

fun fle :: "number \<Rightarrow> number \<Rightarrow> bool" where
  "fle NaN _ = False"
| "fle _ NaN = False"
| "fle (Infinity s) (Infinity t) = (s \<or> \<not> t)"
| "fle (Infinity s) (Dbl _ _) = s"
| "fle (Dbl _ _) (Infinity t) = (\<not> t)"
| "fle (Dbl s a) (Dbl t b) = (sval s a \<le> sval t b)"

text \<open>A finite magnitude is a binary64 value when rounding leaves it alone.\<close>

definition is_double :: "rat \<Rightarrow> bool" where
  "is_double m \<longleftrightarrow> 0 \<le> m \<and> round_mag m = Some m"

fun is_number :: "number \<Rightarrow> bool" where
  "is_number (Dbl s m) = is_double m"
| "is_number _ = True"

section \<open>Objects\<close>

text \<open>
  \<^verbatim>\<open>THREE.Vector2\<close> objects and the trail array are mutable and shared by reference
  (the array is both \<^verbatim>\<open>this.pointerTrail\<close> and the value of the
  \<^verbatim>\<open>uPointerTrail\<close> uniform), so they live in a heap: a list of objects addressed by
  position. Allocation appends.
\<close>

type_synonym ref = nat

datatype obj = Vector2 number number | Array "ref list"

type_synonym heap = "obj list"

datatype error = TypeError

definition alloc :: "obj \<Rightarrow> heap \<Rightarrow> ref \<times> heap" where
  "alloc ob h = (length h, h @ [ob])"

definition lookup :: "heap \<Rightarrow> ref \<Rightarrow> obj option" where
  "lookup h r = (if r < length h then Some (h ! r) else None)"

text \<open>The components of the vector at a reference, if a vector is there.\<close>

definition vec_at :: "heap \<Rightarrow> ref \<Rightarrow> (number \<times> number) option" where
  "vec_at h r = (case lookup h r of Some (Vector2 a b) \<Rightarrow> Some (a, b) | _ \<Rightarrow> None)"

text \<open>\<^verbatim>\<open>arr[i]\<close>: the element, or \<^verbatim>\<open>undefined\<close> (\<open>None\<close>) out of range.\<close>

definition index :: "heap \<Rightarrow> ref \<Rightarrow> nat \<Rightarrow> ref option" where
  "index h a i = (case lookup h a of
       Some (Array rs) \<Rightarrow> (if i < length rs then Some (rs ! i) else None)
     | _ \<Rightarrow> None)"

text \<open>
  \<^verbatim>\<open>target.copy(source)\<close> of \<^verbatim>\<open>THREE.Vector2\<close> assigns the two components of the
  source to the target. Calling it on \<^verbatim>\<open>undefined\<close>, or with \<^verbatim>\<open>undefined\<close>,
  throws a \<^verbatim>\<open>TypeError\<close>.
\<close>

definition vector_copy :: "heap \<Rightarrow> ref option \<Rightarrow> ref option \<Rightarrow> error + heap" where
  "vector_copy h target source = (case (target, source) of
       (Some t, Some v) \<Rightarrow> (case (vec_at h t, vec_at h v) of
           (Some _, Some (a, b)) \<Rightarrow> Inr (h[t := Vector2 a b])
         | _ \<Rightarrow> Inl TypeError)
     | _ \<Rightarrow> Inl TypeError)"

section \<open>The sketch\<close>

text \<open>
  The uniforms object built by \<^verbatim>\<open>addGeometry\<close>. Both materials receive the same
  object, and \<^verbatim>\<open>THREE.Material\<close> keeps the reference it is given.
\<close>

record uniforms =
  u_time :: number
  uResolution :: ref
  uPointerTrail :: ref

text \<open>
  What one run of \<^verbatim>\<open>render\<close> does, in the order it does it. The draw call records
  what the shader program can read at that moment: the \<^verbatim>\<open>time\<close> uniform and the
  vectors of \<^verbatim>\<open>uPointerTrail\<close>.
\<close>

datatype step =
    StatsBegin
  | ClockAdvanced number
  | TrailAdvanced "(number \<times> number) option list"
  | UniformFed number
  | ControlsUpdated
  | Rendered number "(number \<times> number) option list"
  | StatsEnd
  | FrameRequested

text \<open>
  The fields of \<^verbatim>\<open>Sketch\<close> the specification talks about, together with the
  module-level \<^verbatim>\<open>device\<close> object and the two listeners the sketch installs (on the
  window for \<^verbatim>\<open>resize\<close>, on the canvas for \<^verbatim>\<open>mousemove\<close>). The scene graph, the
  lights, the statistics panel and the settings panel are left to their libraries.
\<close>

record sketch =
  heap :: heap
  device_width :: number
  device_height :: number
  time :: number
  trailLength :: nat
  pointerTrail :: ref
  mousePosition :: ref
  camera_aspect :: number
  renderer_size :: "number \<times> number"
  plane_uniforms :: "uniforms option"
  resize_listener :: bool
  mousemove_listener :: bool
  trace :: "step list"

definition trail_refs :: "sketch \<Rightarrow> ref list" where
  "trail_refs s = (case lookup (heap s) (pointerTrail s) of Some (Array rs) \<Rightarrow> rs | _ \<Rightarrow> [])"

definition trail_values :: "sketch \<Rightarrow> (number \<times> number) option list" where
  "trail_values s = map (vec_at (heap s)) (trail_refs s)"

definition uniform_trail_values :: "sketch \<Rightarrow> (number \<times> number) option list" where
  "uniform_trail_values s = (case plane_uniforms s of
       None \<Rightarrow> []
     | Some u \<Rightarrow> (case lookup (heap s) (uPointerTrail u) of
           Some (Array rs) \<Rightarrow> map (vec_at (heap s)) rs
         | _ \<Rightarrow> []))"

subsection \<open>updatePointerTrail\<close>

text \<open>
  \<^verbatim>\<open>for (let i = this.trailLength - 1; i > 0; i--)
    this.pointerTrail[i].copy(this.pointerTrail[i - 1])\<close>
\<close>

fun trail_loop :: "ref \<Rightarrow> nat \<Rightarrow> heap \<Rightarrow> error + heap" where
  "trail_loop a i h =
     (if 0 < i then
        (case vector_copy h (index h a i) (index h a (i - 1)) of
           Inl e \<Rightarrow> Inl e
         | Inr h' \<Rightarrow> trail_loop a (i - 1) h')
      else Inr h)"

definition updatePointerTrail :: "sketch \<Rightarrow> error + sketch" where
  "updatePointerTrail s =
     (case trail_loop (pointerTrail s) (trailLength s - 1) (heap s) of
        Inl e \<Rightarrow> Inl e
      | Inr h \<Rightarrow>
         (case vector_copy h (index h (pointerTrail s) 0) (Some (mousePosition s)) of
            Inl e \<Rightarrow> Inl e
          | Inr h' \<Rightarrow>
             Inr (s\<lparr>heap := h',
                    trace := trace s @
                      [TrailAdvanced (trail_values (s\<lparr>heap := h'\<rparr>))]\<rparr>)))"

subsection \<open>The mousemove listener of createMouseTracker\<close>

record rect =
  left :: number
  top :: number
  width :: number
  height :: number

definition pointer_x :: "number \<Rightarrow> rect \<Rightarrow> number" where
  "pointer_x clientX r = fsub (fmul (fdiv (fsub clientX (left r)) (width r)) (lit 2)) (lit 1)"

definition pointer_y :: "number \<Rightarrow> rect \<Rightarrow> number" where
  "pointer_y clientY r =
     fadd (fmul (fneg (fdiv (fsub clientY (top r)) (height r))) (lit 2)) (lit 1)"

text \<open>Assigning to the field \<^verbatim>\<open>x\<close> (or \<^verbatim>\<open>y\<close>) of the vector at a reference.\<close>

definition set_x :: "heap \<Rightarrow> ref \<Rightarrow> number \<Rightarrow> error + heap" where
  "set_x h r v = (case vec_at h r of
       Some (a, b) \<Rightarrow> Inr (h[r := Vector2 v b])
     | None \<Rightarrow> Inl TypeError)"

definition set_y :: "heap \<Rightarrow> ref \<Rightarrow> number \<Rightarrow> error + heap" where
  "set_y h r v = (case vec_at h r of
       Some (a, b) \<Rightarrow> Inr (h[r := Vector2 a v])
     | None \<Rightarrow> Inl TypeError)"

definition on_mousemove :: "number \<Rightarrow> number \<Rightarrow> rect \<Rightarrow> sketch \<Rightarrow> error + sketch" where
  "on_mousemove clientX clientY r s =
     (case set_x (heap s) (mousePosition s) (pointer_x clientX r) of
        Inl e \<Rightarrow> Inl e
      | Inr h \<Rightarrow>
         (case set_y h (mousePosition s) (pointer_y clientY r) of
            Inl e \<Rightarrow> Inl e
          | Inr h' \<Rightarrow> Inr (s\<lparr>heap := h'\<rparr>)))"

subsection \<open>render\<close>

definition stats_begin :: "sketch \<Rightarrow> sketch" where
  "stats_begin s = s\<lparr>trace := trace s @ [StatsBegin]\<rparr>"

text \<open>\<^verbatim>\<open>this.time += 0.01\<close>\<close>

definition advance_time :: "sketch \<Rightarrow> sketch" where
  "advance_time s =
     (let t = fadd (time s) (lit (1 / 100))
      in s\<lparr>time := t, trace := trace s @ [ClockAdvanced t]\<rparr>)"

text \<open>\<^verbatim>\<open>this.planeMesh!.material.uniforms.time.value = this.time\<close>\<close>

definition feed_uniforms :: "sketch \<Rightarrow> error + sketch" where
  "feed_uniforms s = (case plane_uniforms s of
       None \<Rightarrow> Inl TypeError
     | Some u \<Rightarrow> Inr (s\<lparr>plane_uniforms := Some (u\<lparr>u_time := time s\<rparr>),
                        trace := trace s @ [UniformFed (time s)]\<rparr>))"

definition controls_update :: "sketch \<Rightarrow> sketch" where
  "controls_update s = s\<lparr>trace := trace s @ [ControlsUpdated]\<rparr>"

definition renderer_render :: "sketch \<Rightarrow> sketch" where
  "renderer_render s = s\<lparr>trace := trace s @
     [Rendered (case plane_uniforms s of None \<Rightarrow> NaN | Some u \<Rightarrow> u_time u)
               (uniform_trail_values s)]\<rparr>"

definition stats_end :: "sketch \<Rightarrow> sketch" where
  "stats_end s = s\<lparr>trace := trace s @ [StatsEnd]\<rparr>"

definition requestAnimationFrame :: "sketch \<Rightarrow> sketch" where
  "requestAnimationFrame s = s\<lparr>trace := trace s @ [FrameRequested]\<rparr>"

definition render :: "sketch \<Rightarrow> error + sketch" where
  "render s =
     (case updatePointerTrail (advance_time (stats_begin s)) of
        Inl e \<Rightarrow> Inl e
      | Inr s1 \<Rightarrow>
         (case feed_uniforms s1 of
            Inl e \<Rightarrow> Inl e
          | Inr s2 \<Rightarrow>
             Inr (requestAnimationFrame (stats_end (renderer_render (controls_update s2))))))"

subsection \<open>onResize\<close>

text \<open>The two arguments are \<^verbatim>\<open>window.innerWidth\<close> and \<^verbatim>\<open>window.innerHeight\<close>.\<close>

definition onResize :: "number \<Rightarrow> number \<Rightarrow> sketch \<Rightarrow> sketch" where
  "onResize innerWidth innerHeight s =
     (let s1 = s\<lparr>device_width := innerWidth, device_height := innerHeight\<rparr>;
          s2 = s1\<lparr>camera_aspect := fdiv (device_width s1) (device_height s1)\<rparr>
      in s2\<lparr>renderer_size := (device_width s2, device_height s2)\<rparr>)"

subsection \<open>The constructor, addGeometry and init\<close>

text \<open>\<^verbatim>\<open>Array.from({length: n}, () => new THREE.Vector2(0, 0))\<close>: \<open>n\<close> fresh vectors.\<close>

fun new_vectors :: "nat \<Rightarrow> heap \<Rightarrow> ref list \<times> heap" where
  "new_vectors 0 h = ([], h)"
| "new_vectors (Suc n) h =
     (let (r, h1) = alloc (Vector2 (lit 0) (lit 0)) h;
          (rs, h2) = new_vectors n h1
      in (r # rs, h2))"

definition addGeometry :: "sketch \<Rightarrow> sketch" where
  "addGeometry s =
     (let (r, h) = alloc (Vector2 (device_width s) (device_height s)) (heap s)
      in s\<lparr>heap := h,
           plane_uniforms :=
             Some \<lparr>u_time = lit 0, uResolution = r, uPointerTrail = pointerTrail s\<rparr>\<rparr>)"

text \<open>
  The fields as the constructor leaves them just before it calls \<^verbatim>\<open>init\<close>. The
  arguments are the width and height of \<^verbatim>\<open>device\<close>, read from the window when the
  module was loaded.
\<close>

definition initial_fields :: "number \<Rightarrow> number \<Rightarrow> sketch" where
  "initial_fields w h =
     (let (m, h0) = alloc (Vector2 (lit 0) (lit 0)) [];
          (rs, h1) = new_vectors 15 h0;
          (a, h2) = alloc (Array rs) h1
      in \<lparr>heap = h2, device_width = w, device_height = h, time = lit 0,
          trailLength = 15, pointerTrail = a, mousePosition = m,
          camera_aspect = fdiv w h, renderer_size = (w, h),
          plane_uniforms = None, resize_listener = False, mousemove_listener = False,
          trace = []\<rparr>)"

text \<open>\<^verbatim>\<open>window.addEventListener('resize', this.onResize.bind(this))\<close>\<close>

definition resize :: "sketch \<Rightarrow> sketch" where
  "resize s = s\<lparr>resize_listener := True\<rparr>"

text \<open>\<^verbatim>\<open>this.canvas.addEventListener('mousemove', ...)\<close>\<close>

definition createMouseTracker :: "sketch \<Rightarrow> sketch" where
  "createMouseTracker s = s\<lparr>mousemove_listener := True\<rparr>"

text \<open>
  \<^verbatim>\<open>init\<close>: \<^verbatim>\<open>addGeometry\<close>, \<^verbatim>\<open>resize\<close>, the first \<^verbatim>\<open>render\<close>, and
  \<^verbatim>\<open>createMouseTracker\<close>.
\<close>

definition init :: "sketch \<Rightarrow> error + sketch" where
  "init s =
     (case render (resize (addGeometry s)) of
        Inl e \<Rightarrow> Inl e
      | Inr s' \<Rightarrow> Inr (createMouseTracker s'))"

definition constructor :: "number \<Rightarrow> number \<Rightarrow> error + sketch" where
  "constructor w h = init (initial_fields w h)"

subsection \<open>The event loop\<close>

text \<open>
  After construction the host calls back: the animation frame that \<^verbatim>\<open>render\<close> asked
  for, a resize of the window, a mouse move over the canvas. The host passes the time
  of the frame to the callback; \<^verbatim>\<open>render\<close> has no parameter and never reads it, nor
  \<^verbatim>\<open>this.clock\<close>.
\<close>

datatype event =
    Tick number
  | Resize number number
  | MouseMove number number rect

fun dispatch :: "event \<Rightarrow> sketch \<Rightarrow> error + sketch" where
  "dispatch (Tick timestamp) s = render s"
| "dispatch (Resize w h) s = (if resize_listener s then Inr (onResize w h s) else Inr s)"
| "dispatch (MouseMove cx cy r) s =
     (if mousemove_listener s then on_mousemove cx cy r s else Inr s)"

fun run :: "event list \<Rightarrow> sketch \<Rightarrow> error + sketch" where
  "run [] s = Inr s"
| "run (e # es) s = (case dispatch e s of Inl err \<Rightarrow> Inl err | Inr s' \<Rightarrow> run es s')"

definition session :: "number \<Rightarrow> number \<Rightarrow> event list \<Rightarrow> error + sketch" where
  "session w h es = (case constructor w h of Inl err \<Rightarrow> Inl err | Inr s \<Rightarrow> run es s)"

section \<open>Well-formed sketches\<close>

text \<open>
  The shape the constructor gives the heap and that every method keeps:
  \<^verbatim>\<open>this.pointerTrail\<close> is an array of \<^verbatim>\<open>this.trailLength\<close> distinct vectors, and
  \<^verbatim>\<open>this.mousePosition\<close> is a vector that is none of them.
\<close>

definition trail_ok :: "sketch \<Rightarrow> bool" where
  "trail_ok s \<longleftrightarrow> (case lookup (heap s) (pointerTrail s) of
       Some (Array rs) \<Rightarrow>
         length rs = trailLength s \<and> 0 < length rs \<and> distinct rs \<and>
         list_all (\<lambda>r. vec_at (heap s) r \<noteq> None) rs \<and>
         vec_at (heap s) (mousePosition s) \<noteq> None \<and>
         mousePosition s \<notin> set rs
     | _ \<Rightarrow> False)"

text \<open>
  After \<^verbatim>\<open>addGeometry\<close> the uniforms exist, \<^verbatim>\<open>uPointerTrail\<close> is the very array
  \<^verbatim>\<open>this.pointerTrail\<close>, and \<^verbatim>\<open>uResolution\<close> is a vector of its own.
\<close>

definition sketch_ok :: "sketch \<Rightarrow> bool" where
  "sketch_ok s \<longleftrightarrow> trail_ok s \<and> (case plane_uniforms s of
       None \<Rightarrow> False
     | Some u \<Rightarrow>
         uPointerTrail u = pointerTrail s \<and>
         vec_at (heap s) (uResolution u) \<noteq> None \<and>
         uResolution u \<notin> set (trail_refs s) \<and>
         uResolution u \<noteq> mousePosition s)"

text \<open>\<open>n\<close> calls of \<^verbatim>\<open>updatePointerTrail\<close> in a row.\<close>

fun advances :: "nat \<Rightarrow> sketch \<Rightarrow> error + sketch" where
  "advances 0 s = Inr s"
| "advances (Suc n) s =
     (case updatePointerTrail s of Inl e \<Rightarrow> Inl e | Inr s' \<Rightarrow> advances n s')"

text \<open>The two components of the \<^verbatim>\<open>uResolution\<close> uniform.\<close>

definition resolution_value :: "sketch \<Rightarrow> (number \<times> number) option" where
  "resolution_value s = (case plane_uniforms s of
       None \<Rightarrow> None
     | Some u \<Rightarrow> vec_at (heap s) (uResolution u))"

text \<open>What holds of a sketch built for a \<open>w\<close> by \<open>h\<close> window, whatever events follow.\<close>

definition session_inv :: "number \<Rightarrow> number \<Rightarrow> sketch \<Rightarrow> bool" where
  "session_inv w h s \<longleftrightarrow>
     sketch_ok s \<and> trailLength s = 15 \<and> resolution_value s = Some (w, h)"

text \<open>The pointer and every slot of the trail at the origin.\<close>

definition at_rest :: "sketch \<Rightarrow> bool" where
  "at_rest s \<longleftrightarrow>
     vec_at (heap s) (mousePosition s) = Some (lit 0, lit 0) \<and>
     trail_values s = replicate (trailLength s) (Some (lit 0, lit 0))"

fun is_mousemove :: "event \<Rightarrow> bool" where
  "is_mousemove (MouseMove _ _ _) = True"
| "is_mousemove _ = False"

section \<open>Rectangles and corners\<close>

text \<open>
  A bounding rectangle has finite coordinates and a positive width and height. An offset
  is half of a side when twice its magnitude is the magnitude of the side.
\<close>

fun is_finite :: "number \<Rightarrow> bool" where
  "is_finite (Dbl _ _) = True"
| "is_finite _ = False"

fun is_positive :: "number \<Rightarrow> bool" where
  "is_positive (Dbl s m) = (\<not> s \<and> 0 < m)"
| "is_positive _ = False"

definition proper_rect :: "rect \<Rightarrow> bool" where
  "proper_rect r \<longleftrightarrow>
     is_finite (left r) \<and> is_finite (top r) \<and> is_positive (width r) \<and> is_positive (height r)"

fun half_of :: "number \<Rightarrow> number \<Rightarrow> bool" where
  "half_of (Dbl s a) (Dbl t b) = (\<not> s \<and> \<not> t \<and> 2 * a = b)"
| "half_of _ _ = False"

text \<open>
  A side is in the normal range when it is positive, at least \<open>1 / 2 ^ 1020\<close> and at
  most \<open>2 ^ 1022\<close>: the offsets up to twice the side are then normal binary64
  values that do not overflow.
\<close>

fun normal_side :: "number \<Rightarrow> bool" where
  "normal_side (Dbl s w) = (\<not> s \<and> 1 / 2 ^ 1020 \<le> w \<and> w \<le> 2 ^ 1022)"
| "normal_side _ = False"

text \<open>
  \<open>near_point t d c l side\<close>: the client coordinate \<open>c\<close> lies within the
  fraction \<open>d\<close> of the side from the point at the fraction \<open>t\<close> of the side that
  starts at \<open>l\<close>, all three taken as the exact values of the numbers. The far corner
  is at \<open>t = 1\<close>, the centre at \<open>t = 1 / 2\<close>.
\<close>

fun near_point :: "rat \<Rightarrow> rat \<Rightarrow> number \<Rightarrow> number \<Rightarrow> number \<Rightarrow> bool" where
  "near_point t d (Dbl sc c) (Dbl sl l) (Dbl sw w) =
     (\<bar>sval sc c - (sval sl l + t * sval sw w)\<bar> \<le> d * sval sw w)"
| "near_point _ _ _ _ _ = False"

text \<open>
  \<open>near_value tol n target\<close>: the number \<open>n\<close> is finite and differs from the
  rational \<open>target\<close> by at most \<open>tol\<close>.
\<close>

fun near_value :: "rat \<Rightarrow> number \<Rightarrow> rat \<Rightarrow> bool" where
  "near_value tol (Dbl s m) target = (\<bar>sval s m - target\<bar> \<le> tol)"
| "near_value _ _ _ = False"

text \<open>
  Two more canvases: one of 1023.33... by 575.66... at (10.75, 20.5), whose far corner
  and centre are no binary64 values, and a unit square whose left side is at
  \<open>2 ^ 60\<close>, where the spacing of binary64 is 256.
\<close>

definition fraction_rect :: rect where
  "fraction_rect =
     \<lparr>left = lit (43 / 4), top = lit (41 / 2), width = lit (3070 / 3), height = lit (1727 / 3)\<rparr>"

definition far_rect :: rect where
  "far_rect = \<lparr>left = Dbl False (2 ^ 60), top = lit 0, width = lit 1, height = lit 1\<rparr>"

section \<open>The frame clock\<close>

text \<open>The binary64 value of the literal \<^verbatim>\<open>0.01\<close>.\<close>

definition step_value :: rat where
  "step_value = 5764607523034235 / 2 ^ 59"

text \<open>
  The value of \<^verbatim>\<open>this.time\<close> after \<open>k\<close> runs of \<^verbatim>\<open>this.time += 0.01\<close>,
  starting from the \<^verbatim>\<open>0\<close> of the constructor.
\<close>

fun frame_time :: "nat \<Rightarrow> number" where
  "frame_time 0 = lit 0"
| "frame_time (Suc k) = fadd (frame_time k) (lit (1 / 100))"

text \<open>The animation frames among the events of a session.\<close>

fun is_tick :: "event \<Rightarrow> bool" where
  "is_tick (Tick _) = True"
| "is_tick _ = False"

definition ticks :: "event list \<Rightarrow> nat" where
  "ticks es = length (filter is_tick es)"

text \<open>
  \<open>close_to tol n target\<close>: the number \<open>n\<close> is finite and differs from the
  rational \<open>target\<close> by at most the fraction \<open>tol\<close> of it.
\<close>

fun close_to :: "rat \<Rightarrow> number \<Rightarrow> rat \<Rightarrow> bool" where
  "close_to tol (Dbl s m) target = (\<bar>sval s m - target\<bar> \<le> tol * \<bar>target\<bar>)"
| "close_to _ _ _ = False"

section \<open>Inside and outside the rectangle\<close>

text \<open>The comparison \<^verbatim>\<open><\<close>, and the interval from -1 to 1.\<close>

definition flt :: "number \<Rightarrow> number \<Rightarrow> bool" where
  "flt a b \<longleftrightarrow> fle a b \<and> \<not> fle b a"

definition in_unit :: "number \<Rightarrow> bool" where
  "in_unit n \<longleftrightarrow> fle (lit (- 1)) n \<and> fle n (lit 1)"

text \<open>
  The pointer lies outside the rectangle when one of its coordinates is below the near
  side or above the far side, \<^verbatim>\<open>left + width\<close> or \<^verbatim>\<open>top + height\<close>.
\<close>

definition outside :: "number \<Rightarrow> number \<Rightarrow> rect \<Rightarrow> bool" where
  "outside cx cy r \<longleftrightarrow>
     \<not> (fle (left r) cx \<and> fle cx (fadd (left r) (width r)) \<and>
        fle (top r) cy \<and> fle cy (fadd (top r) (height r)))"

text \<open>
  An offset from the near side of the rectangle lies \<open>beyond\<close> a side of positive
  length when it exceeds the length by at least one part in \<open>2 ^ 52\<close>, and
  \<open>before\<close> it when it is negative by at least one part in \<open>2 ^ 52\<close> of the
  length.
\<close>

fun beyond :: "number \<Rightarrow> number \<Rightarrow> bool" where
  "beyond (Dbl s a) (Dbl t b) = (\<not> s \<and> \<not> t \<and> 0 < b \<and> b * (1 + 1 / 2 ^ 52) \<le> a)"
| "beyond _ _ = False"

fun before :: "number \<Rightarrow> number \<Rightarrow> bool" where
  "before (Dbl s a) (Dbl t b) = (s \<and> \<not> t \<and> 0 < b \<and> b / 2 ^ 52 \<le> a)"
| "before _ _ = False"

text \<open>\<open>at_least s a n\<close>: the number \<open>n\<close> has sign \<open>s\<close> and magnitude \<open>a\<close> or more.\<close>

fun at_least :: "bool \<Rightarrow> rat \<Rightarrow> number \<Rightarrow> bool" where
  "at_least s a (Dbl t m) = (t = s \<and> a \<le> m)"
| "at_least s a (Infinity t) = (t = s)"
| "at_least s a NaN = False"

text \<open>
  Two canvases: a square of side 100 at the origin, and an 800 by 600 canvas whose left
  side is one binary64 step to the right of 8.
\<close>

definition square_rect :: rect where
  "square_rect = \<lparr>left = lit 0, top = lit 0, width = lit 100, height = lit 100\<rparr>"

definition shifted_rect :: rect where
  "shifted_rect =
     \<lparr>left = Dbl False (8 + 1 / 2 ^ 49), top = lit 0, width = lit 800, height = lit 600\<rparr>"

section \<open>A concrete session\<close>

text \<open>
  An 800 by 600 window whose canvas sits at (8, 16): two mouse moves, each followed by a
  frame, a resize, and a last mouse move over the centre of the canvas.
\<close>

definition example_rect :: rect where
  "example_rect = \<lparr>left = lit 8, top = lit 16, width = lit 800, height = lit 600\<rparr>"

definition example_events :: "event list" where
  "example_events =
     [MouseMove (lit 208) (lit 166) example_rect, Tick (lit 16),
      MouseMove (lit 1008) (lit 16) example_rect, Tick (lit 33),
      Resize (lit 1024) (lit 768),
      MouseMove (lit 408) (lit 316) example_rect]"

definition example_sketch :: sketch where
  "example_sketch =
     (case session (lit 800) (lit 600) example_events of
        Inr s \<Rightarrow> s
      | Inl _ \<Rightarrow> initial_fields (lit 800) (lit 600))"

section \<open>Rounding\<close>

lemma ilog2_bounds:
  assumes "0 < m"
  shows "2 powi (ilog2 m) \<le> m" and "m < 2 powi (ilog2 m + 1)"
proof -
  have both: "2 powi (ilog2 m) \<le> m \<and> m < 2 powi (ilog2 m + 1)"
  proof (cases "1 \<le> m")
    case True
    then have fpos: "0 < \<lfloor>m\<rfloor>" by linarith
    from bitlen_bounds[OF fpos] have
      lo: "(2::int) ^ nat (bitlen \<lfloor>m\<rfloor> - 1) \<le> \<lfloor>m\<rfloor>" and hi: "\<lfloor>m\<rfloor> < 2 ^ nat (bitlen \<lfloor>m\<rfloor>)"
      by simp_all
    have b1: "1 \<le> bitlen \<lfloor>m\<rfloor>" using fpos by (simp add: bitlen_alt_def)
    have e: "ilog2 m = bitlen \<lfloor>m\<rfloor> - 1" using True by (simp add: ilog2_def)
    have "(2::rat) powi (ilog2 m) = of_int (2 ^ nat (bitlen \<lfloor>m\<rfloor> - 1))"
      using b1 by (simp add: e power_int_def)
    also have "\<dots> \<le> of_int \<lfloor>m\<rfloor>" using lo by (simp only: of_int_le_iff)
    also have "\<dots> \<le> m" by simp
    finally have A: "2 powi (ilog2 m) \<le> m" .
    have "\<lfloor>m\<rfloor> + 1 \<le> 2 ^ nat (bitlen \<lfloor>m\<rfloor>)" using hi by simp
    then have "(of_int (\<lfloor>m\<rfloor> + 1) :: rat) \<le> of_int (2 ^ nat (bitlen \<lfloor>m\<rfloor>))"
      by (simp only: of_int_le_iff)
    moreover have "m < of_int (\<lfloor>m\<rfloor> + 1)" by linarith
    ultimately have "m < of_int (2 ^ nat (bitlen \<lfloor>m\<rfloor>))" by linarith
    also have "\<dots> = 2 powi (ilog2 m + 1)" using b1 by (simp add: e power_int_def)
    finally show ?thesis using A by simp
  next
    case False
    let ?y = "1 / m"
    let ?c = "\<lceil>?y\<rceil> - 1"
    let ?b = "bitlen ?c"
    from False assms have y1: "1 < ?y" by (simp add: field_simps)
    then have cpos: "0 < ?c" by linarith
    from bitlen_bounds[OF cpos] have
      lo: "(2::int) ^ nat (?b - 1) \<le> ?c" and hi: "?c < 2 ^ nat ?b"
      by simp_all
    have b1: "1 \<le> ?b" using cpos by (simp add: bitlen_alt_def)
    have e: "ilog2 m = - ?b" using False by (simp add: ilog2_def)
    have "\<lceil>?y\<rceil> \<le> 2 ^ nat ?b" using hi by simp
    then have "(of_int \<lceil>?y\<rceil> :: rat) \<le> of_int (2 ^ nat ?b)" by (simp only: of_int_le_iff)
    moreover have "?y \<le> of_int \<lceil>?y\<rceil>" by simp
    ultimately have "?y \<le> of_int (2 ^ nat ?b)" by (rule order_trans[rotated])
    then have yle: "?y \<le> 2 ^ nat ?b" by simp
    have "(of_int (2 ^ nat (?b - 1)) :: rat) \<le> of_int ?c" using lo by (simp only: of_int_le_iff)
    moreover have "of_int ?c < ?y" by linarith
    ultimately have "of_int (2 ^ nat (?b - 1)) < ?y" by (rule le_less_trans)
    then have ygt: "2 ^ nat (?b - 1) < ?y" by simp
    have p: "(2::rat) powi (- ?b) = 1 / 2 ^ nat ?b"
      using b1 by (simp add: power_int_def field_simps)
    have q: "(2::rat) powi (- ?b + 1) = 1 / 2 ^ nat (?b - 1)"
    proof (cases "?b = 1")
      case True
      then show ?thesis by simp
    next
      case False
      with b1 have "- ?b + 1 < 0" by simp
      then have "(2::rat) powi (- ?b + 1) = inverse 2 ^ nat (?b - 1)"
        by (simp add: power_int_def)
      then show ?thesis by (simp add: field_simps)
    qed
    have A: "2 powi (ilog2 m) \<le> m"
      unfolding e p using yle assms by (simp add: field_simps)
    have B: "m < 2 powi (ilog2 m + 1)"
      unfolding e q using ygt assms by (simp add: field_simps)
    from A B show ?thesis by simp
  qed
  from both show "2 powi (ilog2 m) \<le> m" and "m < 2 powi (ilog2 m + 1)" by simp_all
qed

lemma ilog2_unique:
  assumes "2 powi e \<le> m" and "m < 2 powi (e + 1)"
  shows "ilog2 m = e"
proof -
  have pos: "0 < m" using assms(1) by (meson less_le_trans zero_less_numeral zero_less_power_int)
  note b = ilog2_bounds[OF pos]
  have "(2::rat) powi e < 2 powi (ilog2 m + 1)" using assms(1) b(2) by simp
  then have 1: "e < ilog2 m + 1"
    by (metis power_int_increasing not_less one_le_numeral)
  have "(2::rat) powi (ilog2 m) < 2 powi (e + 1)" using assms(2) b(1) by simp
  then have 2: "ilog2 m < e + 1"
    by (metis power_int_increasing not_less one_le_numeral)
  from 1 2 show ?thesis by simp
qed

lemma ilog2_mono:
  assumes "0 < a" and "a \<le> b"
  shows "ilog2 a \<le> ilog2 b"
proof -
  have bpos: "0 < b" using assms by simp
  have "(2::rat) powi (ilog2 a) < 2 powi (ilog2 b + 1)"
    using ilog2_bounds(1)[OF assms(1)] ilog2_bounds(2)[OF bpos] assms(2) by simp
  then have "ilog2 a < ilog2 b + 1"
    by (metis power_int_increasing not_less one_le_numeral)
  then show ?thesis by simp
qed

lemma rne_bounds: "\<lfloor>k\<rfloor> \<le> rne k" "rne k \<le> \<lceil>k\<rceil>"
proof -
  show "\<lfloor>k\<rfloor> \<le> rne k" by (simp add: rne_def Let_def)
  have "k - of_int \<lfloor>k\<rfloor> \<noteq> 0 \<Longrightarrow> \<lfloor>k\<rfloor> + 1 \<le> \<lceil>k\<rceil>"
    by (metis ceiling_altdef eq_iff_diff_eq_0 order_refl)
  moreover have "\<lfloor>k\<rfloor> \<le> \<lceil>k\<rceil>" by simp
  ultimately show "rne k \<le> \<lceil>k\<rceil>"
    by (auto simp: rne_def Let_def)
qed

lemma rne_ge: "of_int n \<le> k \<Longrightarrow> n \<le> rne k"
  using rne_bounds(1)[of k] by (meson le_floor_iff order_trans)

lemma rne_le: "k \<le> of_int n \<Longrightarrow> rne k \<le> n"
  using rne_bounds(2)[of k] by (meson ceiling_le_iff order_trans)

lemma rne_of_int: "rne (of_int n) = n"
  by (simp add: rne_def)

lemma rne_error: "\<bar>of_int (rne k) - k\<bar> \<le> 1 / 2"
proof -
  define r where "r = k - of_int \<lfloor>k\<rfloor>"
  have r: "0 \<le> r" "r < 1" unfolding r_def by linarith+
  have k: "k = of_int \<lfloor>k\<rfloor> + r" by (simp add: r_def)
  have "rne k = (if r < 1 / 2 then \<lfloor>k\<rfloor> else if 1 / 2 < r then \<lfloor>k\<rfloor> + 1
                 else if even \<lfloor>k\<rfloor> then \<lfloor>k\<rfloor> else \<lfloor>k\<rfloor> + 1)"
    by (simp add: rne_def Let_def r_def)
  then consider "of_int (rne k) - k = - r" "r \<le> 1 / 2"
    | "of_int (rne k) - k = 1 - r" "1 / 2 \<le> r"
    using k by (auto split: if_splits) 
  then show ?thesis using r by cases (simp_all add: abs_if)
qed

lemma pow2_add: "(2::rat) powi (a + b) = 2 powi a * 2 powi b"
  by (simp add: power_int_add)

lemma pow2_diff: "(2::rat) powi (a - b) = 2 powi a / 2 powi b"
  by (simp add: power_int_diff)

lemma pow2_mono: "a \<le> b \<Longrightarrow> (2::rat) powi a \<le> 2 powi b"
  by (rule power_int_increasing) simp_all

lemma pow2_pos: "0 < (2::rat) powi a"
  by simp

lemma expo_bounds: "- 1022 \<le> expo m" "ilog2 m \<le> expo m"
  by (simp_all add: expo_def)

lemma expo_mono: "0 < a \<Longrightarrow> a \<le> b \<Longrightarrow> expo a \<le> expo b"
  using ilog2_mono[of a b] by (simp add: expo_def max_def)

lemma ulp_pos: "0 < ulp m"
  by (simp add: ulp_def)

lemma ulp_times: "2 powi 52 * ulp m = 2 powi (expo m)" "2 powi 53 * ulp m = 2 powi (expo m + 1)"
proof -
  have "expo m = 52 + (expo m - 52)" by simp
  then have "(2::rat) powi (expo m) = 2 powi (52 + (expo m - 52))" by (rule arg_cong)
  then show "2 powi 52 * ulp m = 2 powi (expo m)"
    unfolding ulp_def by (simp only: pow2_add)
  have "expo m + 1 = 53 + (expo m - 52)" by simp
  then have "(2::rat) powi (expo m + 1) = 2 powi (53 + (expo m - 52))" by (rule arg_cong)
  then show "2 powi 53 * ulp m = 2 powi (expo m + 1)"
    unfolding ulp_def by (simp only: pow2_add)
qed

lemma below_next_binade:
  assumes "0 < m"
  shows "m < 2 powi (expo m + 1)"
proof -
  have "m < 2 powi (ilog2 m + 1)" by (rule ilog2_bounds(2)[OF assms])
  also have "\<dots> \<le> 2 powi (expo m + 1)" by (rule pow2_mono) (simp add: expo_def)
  finally show ?thesis .
qed

lemma scaled_below: 
  assumes "0 < m"
  shows "m / ulp m < 2 powi 53"
proof -
  have "m < 2 powi 53 * ulp m" using below_next_binade[OF assms] by (simp only: ulp_times)
  then show ?thesis using ulp_pos[of m] by (simp add: pos_divide_less_eq)
qed

lemma normal_expo:
  assumes "0 < m" and "- 1022 \<le> ilog2 m"
  shows "expo m = ilog2 m" and "2 powi (expo m) \<le> m" and "2 powi 52 \<le> m / ulp m"
proof -
  show e: "expo m = ilog2 m" using assms(2) by (simp add: expo_def)
  show b: "2 powi (expo m) \<le> m" unfolding e by (rule ilog2_bounds(1)[OF assms(1)])
  then have "2 powi 52 * ulp m \<le> m" by (simp only: ulp_times)
  then show "2 powi 52 \<le> m / ulp m" using ulp_pos[of m] by (simp add: pos_le_divide_eq)
qed

lemma round_mag_pos:
  assumes "0 < m"
  shows "round_mag m = Some r \<longleftrightarrow>
           r = of_int (rne (m / ulp m)) * ulp m \<and> r < 2 powi 1024"
  using assms by (auto simp: round_mag_def Let_def)

lemma is_double_pos:
  assumes "0 < a" and "is_double a"
  shows "a = of_int (rne (a / ulp a)) * ulp a" and "a < 2 powi 1024"
    and "a / ulp a = of_int (rne (a / ulp a))"
proof -
  from assms have "round_mag a = Some a" by (simp add: is_double_def)
  then show 1: "a = of_int (rne (a / ulp a)) * ulp a" and "a < 2 powi 1024"
    using round_mag_pos[OF assms(1)] by simp_all
  have "a / ulp a = of_int (rne (a / ulp a)) * ulp a / ulp a" using 1 by simp
  then show "a / ulp a = of_int (rne (a / ulp a))" using ulp_pos[of a] by simp
qed

lemma round_mag_lower:
  assumes a: "0 < a" "is_double a" and am: "a \<le> m" and r: "round_mag m = Some r"
  shows "a \<le> r"
proof -
  have m: "0 < m" using a(1) am by simp
  let ?n = "rne (m / ulp m)"
  from r have rr: "r = of_int ?n * ulp m" using round_mag_pos[OF m] by simp
  note da = is_double_pos[OF a]
  have le: "expo a \<le> expo m" by (rule expo_mono[OF a(1) am])
  show ?thesis
  proof (cases "expo a = expo m")
    case True
    then have u: "ulp a = ulp m" by (simp add: ulp_def)
    have "a / ulp m \<le> m / ulp m" using am ulp_pos[of m] by (simp add: divide_right_mono)
    then have "of_int (rne (a / ulp a)) \<le> m / ulp m" using da(3) u by simp
    then have "rne (a / ulp a) \<le> ?n" by (rule rne_ge)
    then have "(of_int (rne (a / ulp a)) :: rat) \<le> of_int ?n" by (simp only: of_int_le_iff)
    then have "of_int (rne (a / ulp a)) * ulp m \<le> of_int ?n * ulp m"
      using ulp_pos[of m] by (simp add: mult_right_mono)
    then show ?thesis using da(1) u rr by simp
  next
    case False
    with le have lt: "expo a < expo m" by simp
    have "- 1022 \<le> ilog2 m"
      using lt expo_bounds(1)[of a] by (simp add: expo_def max_def split: if_splits)
    note n = normal_expo[OF m this]
    have "(of_int (2 ^ 52) :: rat) \<le> m / ulp m" using n(3) by simp
    then have "2 ^ 52 \<le> ?n" by (rule rne_ge)
    then have "(of_int (2 ^ 52) :: rat) \<le> of_int ?n" by (simp only: of_int_le_iff)
    then have "2 powi 52 * ulp m \<le> of_int ?n * ulp m"
      using ulp_pos[of m] by (simp add: mult_right_mono)
    then have "2 powi (expo m) \<le> r" unfolding rr by (simp only: ulp_times)
    moreover have "a < 2 powi (expo a + 1)" by (rule below_next_binade[OF a(1)])
    moreover have "(2::rat) powi (expo a + 1) \<le> 2 powi (expo m)"
      by (rule pow2_mono) (use lt in simp)
    ultimately show ?thesis by simp
  qed
qed

lemma round_mag_upper:
  assumes m: "0 < m" and mb: "m \<le> b" and b: "is_double b"
  shows "\<exists>r. round_mag m = Some r \<and> r \<le> b"
proof -
  have bpos: "0 < b" using m mb by simp
  note db = is_double_pos[OF bpos b]
  let ?n = "rne (m / ulp m)"
  let ?r = "of_int ?n * ulp m"
  have le: "expo m \<le> expo b" by (rule expo_mono[OF m mb])
  have "?r \<le> b"
  proof (cases "expo m = expo b")
    case True
    then have u: "ulp b = ulp m" by (simp add: ulp_def)
    have "m / ulp m \<le> b / ulp m" using mb ulp_pos[of m] by (simp add: divide_right_mono)
    then have "m / ulp m \<le> of_int (rne (b / ulp b))" using db(3) u by simp
    then have "?n \<le> rne (b / ulp b)" by (rule rne_le)
    then have "(of_int ?n :: rat) \<le> of_int (rne (b / ulp b))" by (simp only: of_int_le_iff)
    then have "?r \<le> of_int (rne (b / ulp b)) * ulp m"
      using ulp_pos[of m] by (simp add: mult_right_mono)
    then show ?thesis using db(1) u by simp
  next
    case False
    with le have lt: "expo m < expo b" by simp
    have "- 1022 \<le> ilog2 b"
      using lt expo_bounds(1)[of m] by (simp add: expo_def max_def split: if_splits)
    note n = normal_expo[OF bpos this]
    have "m / ulp m \<le> of_int (2 ^ 53)" using scaled_below[OF m] by simp
    then have "?n \<le> 2 ^ 53" by (rule rne_le)
    then have "(of_int ?n :: rat) \<le> of_int (2 ^ 53)" by (simp only: of_int_le_iff)
    then have "?r \<le> 2 powi 53 * ulp m"
      using ulp_pos[of m] by (simp add: mult_right_mono)
    then have "?r \<le> 2 powi (expo m + 1)" by (simp only: ulp_times)
    moreover have "(2::rat) powi (expo m + 1) \<le> 2 powi (expo b)"
      by (rule pow2_mono) (use lt in simp)
    ultimately show ?thesis using n(2) by simp
  qed
  moreover from this db(2) have "?r < 2 powi 1024" by simp
  ultimately show ?thesis using round_mag_pos[OF m] by simp
qed

lemma round_mag_error:
  assumes m: "0 < m" and r: "round_mag m = Some r"
  shows "\<bar>r - m\<bar> \<le> ulp m / 2"
proof -
  let ?k = "m / ulp m"
  from r have rr: "r = of_int (rne ?k) * ulp m" using round_mag_pos[OF m] by simp
  have "r - m = (of_int (rne ?k) - ?k) * ulp m"
    using ulp_pos[of m] by (simp add: rr field_simps)
  then have "\<bar>r - m\<bar> = \<bar>of_int (rne ?k) - ?k\<bar> * ulp m"
    using ulp_pos[of m] by (simp add: abs_mult)
  also have "\<dots> \<le> 1 / 2 * ulp m"
    using rne_error[of ?k] ulp_pos[of m] by (simp only: mult_right_mono less_imp_le)
  finally show ?thesis by simp
qed

lemma ulp_relative:
  assumes "2 powi (- 1022) \<le> m"
  shows "ulp m \<le> m * 2 powi (- 52)"
proof -
  have m: "0 < m" using assms by (meson less_le_trans pow2_pos)
  have "ilog2 (2 powi (- 1022)) = - 1022" by (rule ilog2_unique) (simp_all add: pow2_mono)
  then have "- 1022 \<le> ilog2 m" using ilog2_mono[OF pow2_pos assms] by simp
  note n = normal_expo[OF m this]
  have "ulp m = 2 powi (expo m) * 2 powi (- 52)"
    unfolding ulp_def by (simp only: pow2_add[symmetric]) simp
  also have "\<dots> \<le> m * 2 powi (- 52)" using n(2) by (simp add: mult_right_mono)
  finally show ?thesis .
qed

lemma pow2_less_cancel: "(2::rat) powi a < 2 powi b \<Longrightarrow> a < b"
  by (metis power_int_increasing not_less one_le_numeral)

lemma is_double_0: "is_double 0"
  by (simp add: is_double_def round_mag_def)

lemma is_double_multiple:
  assumes r: "0 < r" and n: "r = of_int n * ulp r" and hi: "r < 2 powi 1024"
  shows "is_double r"
proof -
  have "r / ulp r = of_int n" using n ulp_pos[of r]
    by (metis nonzero_mult_div_cancel_right less_numeral_extra(3))
  then have "of_int (rne (r / ulp r)) * ulp r = r" using n by (simp add: rne_of_int)
  then show ?thesis using hi r round_mag_pos[OF r, of r] by (simp add: is_double_def)
qed

lemma round_mag_is_double:
  assumes m: "0 \<le> m" and r: "round_mag m = Some r"
  shows "is_double r"
proof (cases "m = 0")
  case True
  with r show ?thesis by (simp add: round_mag_def is_double_0)
next
  case False
  with m have mpos: "0 < m" by simp
  let ?n = "rne (m / ulp m)"
  from r have rr: "r = of_int ?n * ulp m" and hi: "r < 2 powi 1024"
    using round_mag_pos[OF mpos] by simp_all
  have n0: "0 \<le> ?n" by (rule rne_ge) (use mpos ulp_pos[of m] in simp)
  have "m / ulp m \<le> of_int (2 ^ 53)" using scaled_below[OF mpos] by simp
  then have n53: "?n \<le> 2 ^ 53" by (rule rne_le)
  show ?thesis
  proof (cases "?n = 0")
    case True
    then show ?thesis by (simp add: rr is_double_0)
  next
    case nz: False
    with n0 have npos: "0 < ?n" by simp
    have rpos: "0 < r" unfolding rr using npos ulp_pos[of m] by simp
    show ?thesis
    proof (cases "?n = 2 ^ 53")
      case True
      then have "r = 2 powi 53 * ulp m" by (simp add: rr)
      then have r2: "r = 2 powi (expo m + 1)" by (simp only: ulp_times)
      have "ilog2 r = expo m + 1"
        by (rule ilog2_unique) (simp add: r2, simp add: r2 power_int_strict_increasing)
      then have e: "expo r = expo m + 1" using expo_bounds(1)[of m] by (simp add: expo_def)
      have "2 powi 52 * ulp r = 2 powi (expo r)" by (rule ulp_times)
      then have "2 powi 52 * ulp r = r" using e r2 by simp
      then have "r = of_int (2 ^ 52) * ulp r" by simp
      then show ?thesis using hi rpos by (rule is_double_multiple[rotated])
    next
      case False
      with n53 have "?n + 1 \<le> 2 ^ 53" by simp
      then have "(of_int (?n + 1) :: rat) \<le> of_int (2 ^ 53)" by (simp only: of_int_le_iff)
      then have "(of_int ?n :: rat) < 2 powi 53" by simp
      then have "r < 2 powi 53 * ulp m" unfolding rr using ulp_pos[of m] by simp
      then have below: "r < 2 powi (expo m + 1)" by (simp only: ulp_times)
      have e: "expo r = expo m"
      proof (cases "- 1022 \<le> ilog2 m")
        case True
        note nm = normal_expo[OF mpos True]
        have "(of_int (2 ^ 52) :: rat) \<le> m / ulp m" using nm(3) by simp
        then have "2 ^ 52 \<le> ?n" by (rule rne_ge)
        then have "(of_int (2 ^ 52) :: rat) \<le> of_int ?n" by (simp only: of_int_le_iff)
        then have "2 powi 52 * ulp m \<le> r" unfolding rr using ulp_pos[of m] by simp
        then have "2 powi (expo m) \<le> r" by (simp only: ulp_times)
        then have "ilog2 r = expo m" using below by (rule ilog2_unique)
        then show ?thesis using expo_bounds(1)[of m] by (simp add: expo_def)
      next
        case False
        then have em: "expo m = - 1022" by (simp add: expo_def)
        have "2 powi (ilog2 r) \<le> r" by (rule ilog2_bounds(1)[OF rpos])
        then have "(2::rat) powi (ilog2 r) < 2 powi (- 1021)" using below em by simp
        then have "ilog2 r < - 1021" by (rule pow2_less_cancel)
        then have "expo r = - 1022" by (simp add: expo_def)
        then show ?thesis using em by simp
      qed
      then have "ulp r = ulp m" by (simp add: ulp_def)
      then have "r = of_int ?n * ulp r" using rr by simp
      then show ?thesis using hi rpos by (rule is_double_multiple[rotated])
    qed
  qed
qed

lemma ulp_normal:
  assumes "2 powi e \<le> m" and "m < 2 powi (e + 1)" and "- 1022 \<le> e"
  shows "ulp m = 2 powi (e - 52)"
  using ilog2_unique[OF assms(1,2)] assms(3) by (simp add: ulp_def expo_def)

lemma round_mag_normal:
  assumes "2 powi e \<le> m" and "m < 2 powi (e + 1)" and "- 1022 \<le> e"
  shows "round_mag m =
    (let r = of_int (rne (m / 2 powi (e - 52))) * 2 powi (e - 52)
     in if 2 powi 1024 \<le> r then None else Some r)"
proof -
  have "0 < m" using assms(1) by (meson less_le_trans pow2_pos)
  then show ?thesis by (simp add: round_mag_def ulp_normal[OF assms])
qed

lemma floor_rat_numeral:
  "\<lfloor>(numeral a / numeral b :: rat)\<rfloor> = numeral a div numeral b"
  using floor_divide_of_int_eq[of "numeral a" "numeral b", where ?'a = rat] by simp

lemmas round_eval = rne_def Let_def floor_rat_numeral

lemma lit_0: "lit 0 = Dbl False 0"
  by (simp add: lit_def round_num_def round_mag_def)

lemma round_mag_1: "round_mag 1 = Some 1"
  by (subst round_mag_normal[where e = 0]) (simp_all add: round_eval)

lemma round_mag_2: "round_mag 2 = Some 2"
  by (subst round_mag_normal[where e = 1]) (simp_all add: round_eval)

lemma round_mag_half: "round_mag (1 / 2) = Some (1 / 2)"
  by (subst round_mag_normal[where e = "- 1"]) (simp_all add: round_eval)

lemma round_mag_hundredth: "round_mag (1 / 100) = Some (5764607523034235 / 2 ^ 59)"
  by (subst round_mag_normal[where e = "- 7"]) (simp_all add: round_eval)

lemma saturation: "round_mag (2 ^ 47 + 5764607523034235 / 2 ^ 59) = Some (2 ^ 47)"
  by (subst round_mag_normal[where e = 47]) (simp_all add: round_eval)

section \<open>The effect of each method\<close>

lemma lookup_update:
  "lookup (h[t := ob]) r = (if r = t \<and> t < length h then Some ob else lookup h r)"
  by (simp add: lookup_def)

lemma vec_at_update:
  "vec_at (h[t := Vector2 a b]) r =
     (if r = t \<and> t < length h then Some (a, b) else vec_at h r)"
  by (simp add: vec_at_def lookup_update)

lemma vec_at_in_heap: "vec_at h r = Some v \<Longrightarrow> r < length h"
  by (simp add: vec_at_def lookup_def split: if_splits)

lemma vec_at_not_array: "lookup h a = Some (Array rs) \<Longrightarrow> vec_at h a = None"
  by (simp add: vec_at_def)

lemma vector_copy_ok:
  assumes "vec_at h t = Some w" and "vec_at h v = Some (a, b)"
  shows "vector_copy h (Some t) (Some v) = Inr (h[t := Vector2 a b])"
  using assms by (simp add: vector_copy_def)

lemma index_ok:
  "lookup h a = Some (Array rs) \<Longrightarrow> i < length rs \<Longrightarrow> index h a i = Some (rs ! i)"
  by (simp add: index_def)

lemma trail_loop_shift:
  assumes "lookup h a = Some (Array rs)"
    and "distinct rs"
    and "\<forall>r \<in> set rs. vec_at h r \<noteq> None"
    and "i < length rs"
  shows "\<exists>h'. trail_loop a i h = Inr h' \<and> length h' = length h \<and>
           (\<forall>k. 1 \<le> k \<and> k \<le> i \<longrightarrow> vec_at h' (rs ! k) = vec_at h (rs ! (k - 1))) \<and>
           (\<forall>r. (\<forall>k. 1 \<le> k \<and> k \<le> i \<longrightarrow> r \<noteq> rs ! k) \<longrightarrow> lookup h' r = lookup h r)"
  using assms
proof (induction i arbitrary: h)
  case 0
  then show ?case by simp
next
  case (Suc i)
  let ?t = "rs ! Suc i" and ?v = "rs ! i"
  from Suc.prems have ilt: "i < length rs" and silt: "Suc i < length rs" by simp_all
  from Suc.prems ilt silt obtain w a0 b0
    where vt: "vec_at h ?t = Some w" and vv: "vec_at h ?v = Some (a0, b0)"
    by (metis nth_mem not_Some_eq surj_pair)
  let ?h1 = "h[?t := Vector2 a0 b0]"
  have tlen: "?t < length h" using vt by (rule vec_at_in_heap)
  have ta: "?t \<noteq> a" using vt vec_at_not_array[OF Suc.prems(1)] by auto
  have copy: "vector_copy h (index h a (Suc i)) (index h a (Suc i - 1)) = Inr ?h1"
    using index_ok[OF Suc.prems(1) silt] index_ok[OF Suc.prems(1) ilt] vector_copy_ok[OF vt vv]
    by simp
  have la: "lookup ?h1 a = Some (Array rs)"
    using Suc.prems(1) ta by (simp add: lookup_update)
  have vecs: "\<forall>r \<in> set rs. vec_at ?h1 r \<noteq> None"
    using Suc.prems(3) by (simp add: vec_at_update)
  from Suc.IH[OF la Suc.prems(2) vecs ilt] obtain h'
    where run: "trail_loop a i ?h1 = Inr h'" and len: "length h' = length ?h1"
      and sh: "\<forall>k. 1 \<le> k \<and> k \<le> i \<longrightarrow> vec_at h' (rs ! k) = vec_at ?h1 (rs ! (k - 1))"
      and fr: "\<forall>r. (\<forall>k. 1 \<le> k \<and> k \<le> i \<longrightarrow> r \<noteq> rs ! k) \<longrightarrow> lookup h' r = lookup ?h1 r"
    by blast
  have res: "trail_loop a (Suc i) h = Inr h'"
    using copy run by (simp del: trail_loop.simps add: trail_loop.simps[of a "Suc i" h])
  have neq: "\<And>j. j < Suc i \<Longrightarrow> rs ! j \<noteq> ?t"
    using Suc.prems(2) silt by (simp add: nth_eq_iff_index_eq)
  have shift: "vec_at h' (rs ! k) = vec_at h (rs ! (k - 1))" if k: "1 \<le> k" "k \<le> Suc i" for k
  proof (cases "k = Suc i")
    case True
    have "lookup h' ?t = lookup ?h1 ?t"
      using fr neq by (metis le_imp_less_Suc)
    then have "vec_at h' ?t = vec_at ?h1 ?t" by (simp add: vec_at_def)
    with True tlen vv show ?thesis by (simp add: vec_at_update)
  next
    case False
    with k have ki: "k \<le> i" by simp
    then have "vec_at h' (rs ! k) = vec_at ?h1 (rs ! (k - 1))" using sh k by simp
    moreover have "rs ! (k - 1) \<noteq> ?t" using neq[of "k - 1"] k ki by simp
    ultimately show ?thesis by (simp add: vec_at_update)
  qed
  have frame: "lookup h' r = lookup h r" if "\<forall>k. 1 \<le> k \<and> k \<le> Suc i \<longrightarrow> r \<noteq> rs ! k" for r
  proof -
    have "lookup h' r = lookup ?h1 r" using fr that by simp
    moreover have "r \<noteq> ?t" using that by auto
    ultimately show ?thesis by (simp add: lookup_update)
  qed
  from res len shift frame show ?case by auto
qed

lemma trail_okD:
  assumes "trail_ok s"
  shows "lookup (heap s) (pointerTrail s) = Some (Array (trail_refs s))"
    and "length (trail_refs s) = trailLength s"
    and "0 < length (trail_refs s)"
    and "distinct (trail_refs s)"
    and "\<forall>r \<in> set (trail_refs s). vec_at (heap s) r \<noteq> None"
    and "vec_at (heap s) (mousePosition s) \<noteq> None"
    and "mousePosition s \<notin> set (trail_refs s)"
  using assms
  by (auto simp: trail_ok_def trail_refs_def list_all_iff split: option.splits obj.splits)

lemma trail_okI:
  assumes "lookup (heap s) (pointerTrail s) = Some (Array rs)"
    and "length rs = trailLength s" and "0 < length rs" and "distinct rs"
    and "\<forall>r \<in> set rs. vec_at (heap s) r \<noteq> None"
    and "vec_at (heap s) (mousePosition s) \<noteq> None"
    and "mousePosition s \<notin> set rs"
  shows "trail_ok s"
  using assms by (simp add: trail_ok_def list_all_iff)

text \<open>What one call of \<open>updatePointerTrail\<close> does to the heap of a well-formed sketch.\<close>

lemma updatePointerTrail_heap:
  assumes ok: "trail_ok s"
  shows "\<exists>h'. updatePointerTrail s =
            Inr (s\<lparr>heap := h',
                   trace := trace s @ [TrailAdvanced (trail_values (s\<lparr>heap := h'\<rparr>))]\<rparr>) \<and>
           length h' = length (heap s) \<and>
           vec_at h' (trail_refs s ! 0) = vec_at (heap s) (mousePosition s) \<and>
           (\<forall>k. 1 \<le> k \<and> k < length (trail_refs s) \<longrightarrow>
              vec_at h' (trail_refs s ! k) = vec_at (heap s) (trail_refs s ! (k - 1))) \<and>
           (\<forall>r. r \<notin> set (trail_refs s) \<longrightarrow> lookup h' r = lookup (heap s) r)"
proof -
  let ?rs = "trail_refs s" and ?h = "heap s" and ?a = "pointerTrail s" and ?m = "mousePosition s"
  note d = trail_okD[OF ok]
  have n1: "trailLength s - 1 < length ?rs" using d(2,3) by simp
  from trail_loop_shift[OF d(1) d(4) d(5) n1] obtain h1
    where loop: "trail_loop ?a (trailLength s - 1) ?h = Inr h1"
      and len1: "length h1 = length ?h"
      and sh: "\<forall>k. 1 \<le> k \<and> k \<le> trailLength s - 1 \<longrightarrow>
                 vec_at h1 (?rs ! k) = vec_at ?h (?rs ! (k - 1))"
      and fr: "\<forall>r. (\<forall>k. 1 \<le> k \<and> k \<le> trailLength s - 1 \<longrightarrow> r \<noteq> ?rs ! k) \<longrightarrow>
                 lookup h1 r = lookup ?h r"
    by blast
  have outside: "lookup h1 r = lookup ?h r" if "r \<notin> set ?rs" for r
  proof -
    have "\<forall>k. 1 \<le> k \<and> k \<le> trailLength s - 1 \<longrightarrow> r \<noteq> ?rs ! k"
      using that d(2,3) by (metis n1 le_less_trans nth_mem)
    then show ?thesis using fr by blast
  qed
  have a_out: "?a \<notin> set ?rs"
    using d(5) vec_at_not_array[OF d(1)] by auto
  have la1: "lookup h1 ?a = Some (Array ?rs)" using outside[OF a_out] d(1) by simp
  have zero: "lookup h1 (?rs ! 0) = lookup ?h (?rs ! 0)"
  proof -
    have "\<forall>k. 1 \<le> k \<and> k \<le> trailLength s - 1 \<longrightarrow> ?rs ! 0 \<noteq> ?rs ! k"
      using d(2,3,4) by (auto simp: nth_eq_iff_index_eq)
    then show ?thesis using fr by blast
  qed
  obtain w0 where v0: "vec_at h1 (?rs ! 0) = Some w0"
    using zero d(3,5) by (metis nth_mem not_Some_eq vec_at_def)
  obtain ma mb where vm: "vec_at ?h ?m = Some (ma, mb)"
    using d(6) by (metis not_Some_eq surj_pair)
  have vm1: "vec_at h1 ?m = Some (ma, mb)"
    using outside[OF d(7)] vm by (simp add: vec_at_def)
  let ?h2 = "h1[?rs ! 0 := Vector2 ma mb]"
  have copy: "vector_copy h1 (index h1 ?a 0) (Some ?m) = Inr ?h2"
    using index_ok[OF la1 d(3)] vector_copy_ok[OF v0 vm1] by simp
  have res: "updatePointerTrail s =
      Inr (s\<lparr>heap := ?h2, trace := trace s @ [TrailAdvanced (trail_values (s\<lparr>heap := ?h2\<rparr>))]\<rparr>)"
    using loop copy by (simp add: updatePointerTrail_def)
  have r0len: "?rs ! 0 < length h1" using v0 by (rule vec_at_in_heap)
  have p0: "vec_at ?h2 (?rs ! 0) = vec_at ?h ?m"
    using r0len vm by (simp add: vec_at_update)
  have pk: "vec_at ?h2 (?rs ! k) = vec_at ?h (?rs ! (k - 1))"
    if "1 \<le> k" "k < length ?rs" for k
  proof -
    have "?rs ! k \<noteq> ?rs ! 0" using that d(3,4) by (simp add: nth_eq_iff_index_eq)
    moreover have "vec_at h1 (?rs ! k) = vec_at ?h (?rs ! (k - 1))"
      using sh that d(2) by simp
    ultimately show ?thesis by (simp add: vec_at_update)
  qed
  have pf: "lookup ?h2 r = lookup ?h r" if "r \<notin> set ?rs" for r
  proof -
    have "r \<noteq> ?rs ! 0" using that d(3) by (metis nth_mem)
    then show ?thesis using outside[OF that] by (simp add: lookup_update)
  qed
  show ?thesis
    using res len1 p0 pk pf by (intro exI[of _ ?h2]) simp
qed

lemma trail_refs_heap:
  "lookup h' (pointerTrail s) = lookup (heap s) (pointerTrail s) \<Longrightarrow>
   trail_refs (s\<lparr>heap := h'\<rparr>) = trail_refs s"
  by (simp add: trail_refs_def)

lemma updatePointerTrail_effect:
  assumes ok: "trail_ok s"
  shows "\<exists>s'. updatePointerTrail s = Inr s' \<and>
           s' = s\<lparr>heap := heap s', trace := trace s @ [TrailAdvanced (trail_values s')]\<rparr> \<and>
           trail_ok s' \<and>
           trail_refs s' = trail_refs s \<and>
           trail_values s' = vec_at (heap s) (mousePosition s) # butlast (trail_values s) \<and>
           (\<forall>r. r \<notin> set (trail_refs s) \<longrightarrow> lookup (heap s') r = lookup (heap s) r)"
proof -
  let ?rs = "trail_refs s"
  note d = trail_okD[OF ok]
  from updatePointerTrail_heap[OF ok] obtain h'
    where res: "updatePointerTrail s =
        Inr (s\<lparr>heap := h', trace := trace s @ [TrailAdvanced (trail_values (s\<lparr>heap := h'\<rparr>))]\<rparr>)"
      and len: "length h' = length (heap s)"
      and p0: "vec_at h' (?rs ! 0) = vec_at (heap s) (mousePosition s)"
      and pk: "\<forall>k. 1 \<le> k \<and> k < length ?rs \<longrightarrow>
                 vec_at h' (?rs ! k) = vec_at (heap s) (?rs ! (k - 1))"
      and pf: "\<forall>r. r \<notin> set ?rs \<longrightarrow> lookup h' r = lookup (heap s) r"
    by blast
  let ?s' = "s\<lparr>heap := h', trace := trace s @ [TrailAdvanced (trail_values (s\<lparr>heap := h'\<rparr>))]\<rparr>"
  have a_out: "pointerTrail s \<notin> set ?rs"
    using d(5) vec_at_not_array[OF d(1)] by auto
  have la: "lookup h' (pointerTrail s) = Some (Array ?rs)" using pf a_out d(1) by simp
  have refs: "trail_refs ?s' = ?rs" using la by (simp add: trail_refs_def)
  have tv: "trail_values ?s' = trail_values (s\<lparr>heap := h'\<rparr>)"
    by (simp add: trail_values_def trail_refs_def)
  have vals: "trail_values ?s' = vec_at (heap s) (mousePosition s) # butlast (trail_values s)"
  proof (rule nth_equalityI)
    show "length (trail_values ?s') =
          length (vec_at (heap s) (mousePosition s) # butlast (trail_values s))"
      using refs d(3) by (simp add: trail_values_def)
  next
    fix i assume "i < length (trail_values ?s')"
    then have i: "i < length ?rs" using refs by (simp add: trail_values_def)
    show "trail_values ?s' ! i =
          (vec_at (heap s) (mousePosition s) # butlast (trail_values s)) ! i"
    proof (cases i)
      case 0
      then show ?thesis using i p0 refs by (simp add: trail_values_def)
    next
      case (Suc j)
      then have "vec_at h' (?rs ! i) = vec_at (heap s) (?rs ! j)" using pk i by simp
      then show ?thesis using Suc i refs by (simp add: trail_values_def nth_butlast)
    qed
  qed
  have vecs: "\<forall>r \<in> set ?rs. vec_at h' r \<noteq> None"
  proof
    fix r assume "r \<in> set ?rs"
    then obtain k where k: "k < length ?rs" "r = ?rs ! k" by (metis in_set_conv_nth)
    show "vec_at h' r \<noteq> None"
    proof (cases k)
      case 0
      then show ?thesis using k p0 d(6) by simp
    next
      case (Suc j)
      then have "vec_at h' r = vec_at (heap s) (?rs ! j)" using pk k by simp
      moreover have "?rs ! j \<in> set ?rs" using Suc k by simp
      ultimately show ?thesis using d(5) by simp
    qed
  qed
  have mouse: "vec_at h' (mousePosition s) \<noteq> None"
    using pf d(6,7) by (simp add: vec_at_def)
  have ok': "trail_ok ?s'"
    by (rule trail_okI[where rs = ?rs]) (use la d vecs mouse in simp_all)
  show ?thesis
    using res ok' refs vals pf tv by (intro exI[of _ ?s']) simp
qed

lemma trail_ok_cong:
  assumes "heap s' = heap s" "pointerTrail s' = pointerTrail s"
    "trailLength s' = trailLength s" "mousePosition s' = mousePosition s"
  shows "trail_ok s' = trail_ok s"
  using assms by (simp add: trail_ok_def split: option.splits obj.splits)

lemma trail_values_cong:
  assumes "heap s' = heap s" "pointerTrail s' = pointerTrail s"
  shows "trail_values s' = trail_values s" "trail_refs s' = trail_refs s"
  using assms by (simp_all add: trail_values_def trail_refs_def)

lemma render_effect:
  assumes ok: "sketch_ok s"
  shows "\<exists>s' u. render s = Inr s' \<and> plane_uniforms s = Some u \<and>
           s' = s\<lparr>heap := heap s',
                  time := fadd (time s) (lit (1 / 100)),
                  plane_uniforms := Some (u\<lparr>u_time := fadd (time s) (lit (1 / 100))\<rparr>),
                  trace := trace s @
                    [StatsBegin,
                     ClockAdvanced (fadd (time s) (lit (1 / 100))),
                     TrailAdvanced (trail_values s'),
                     UniformFed (fadd (time s) (lit (1 / 100))),
                     ControlsUpdated,
                     Rendered (fadd (time s) (lit (1 / 100))) (trail_values s'),
                     StatsEnd,
                     FrameRequested]\<rparr> \<and>
           sketch_ok s' \<and>
           trail_refs s' = trail_refs s \<and>
           trail_values s' = vec_at (heap s) (mousePosition s) # butlast (trail_values s) \<and>
           uniform_trail_values s' = trail_values s' \<and>
           (\<forall>r. r \<notin> set (trail_refs s) \<longrightarrow> lookup (heap s') r = lookup (heap s) r)"
proof -
  let ?t = "fadd (time s) (lit (1 / 100))"
  let ?s0 = "advance_time (stats_begin s)"
  from ok have tok: "trail_ok s" by (simp add: sketch_ok_def)
  from ok obtain u where u: "plane_uniforms s = Some u"
    and ua: "uPointerTrail u = pointerTrail s"
    and ur: "vec_at (heap s) (uResolution u) \<noteq> None"
    and urt: "uResolution u \<notin> set (trail_refs s)"
    and urm: "uResolution u \<noteq> mousePosition s"
    by (auto simp: sketch_ok_def split: option.splits)
  have s0: "?s0 = s\<lparr>time := ?t, trace := trace s @ [StatsBegin, ClockAdvanced ?t]\<rparr>"
    by (simp add: advance_time_def stats_begin_def Let_def)
  have tok0: "trail_ok ?s0" using tok trail_ok_cong[of ?s0 s] by (simp add: s0)
  have tr0: "trail_refs ?s0 = trail_refs s" "trail_values ?s0 = trail_values s"
    by (simp_all add: s0 trail_refs_def trail_values_def)
  from updatePointerTrail_effect[OF tok0] obtain s1
    where up: "updatePointerTrail ?s0 = Inr s1"
      and s1: "s1 = ?s0\<lparr>heap := heap s1,
                         trace := trace ?s0 @ [TrailAdvanced (trail_values s1)]\<rparr>"
      and tok1: "trail_ok s1"
      and refs1: "trail_refs s1 = trail_refs s"
      and vals1: "trail_values s1 = vec_at (heap s) (mousePosition s) # butlast (trail_values s)"
      and fr1: "\<forall>r. r \<notin> set (trail_refs s) \<longrightarrow> lookup (heap s1) r = lookup (heap s) r"
    unfolding tr0 by (auto simp: s0)
  have f1: "plane_uniforms s1 = Some u" "time s1 = ?t" "pointerTrail s1 = pointerTrail s"
    "mousePosition s1 = mousePosition s" "trailLength s1 = trailLength s"
    "trace s1 = trace s @ [StatsBegin, ClockAdvanced ?t, TrailAdvanced (trail_values s1)]"
    by (subst s1, simp add: s0 u)+
  let ?s2 = "s1\<lparr>plane_uniforms := Some (u\<lparr>u_time := ?t\<rparr>),
                 trace := trace s1 @ [UniformFed ?t]\<rparr>"
  have feed: "feed_uniforms s1 = Inr ?s2" by (simp add: feed_uniforms_def f1)
  let ?s' = "requestAnimationFrame (stats_end (renderer_render (controls_update ?s2)))"
  have res: "render s = Inr ?s'" using up feed by (simp add: render_def)
  have heap': "heap ?s' = heap s1"
    by (simp add: requestAnimationFrame_def stats_end_def renderer_render_def controls_update_def)
  have fields': "pointerTrail ?s' = pointerTrail s" "mousePosition ?s' = mousePosition s"
    "trailLength ?s' = trailLength s" "plane_uniforms ?s' = Some (u\<lparr>u_time := ?t\<rparr>)"
    "time ?s' = ?t"
    by (simp_all add: requestAnimationFrame_def stats_end_def renderer_render_def
        controls_update_def f1)
  have tv': "trail_values ?s' = trail_values s1" "trail_refs ?s' = trail_refs s1"
    using heap' fields'(1) f1(3) by (simp_all add: trail_values_def trail_refs_def)
  have utv2: "uniform_trail_values (controls_update ?s2) = trail_values s1"
    using ua f1(3)
    by (simp add: uniform_trail_values_def controls_update_def trail_values_def trail_refs_def
        split: option.splits obj.splits)
  have utv': "uniform_trail_values ?s' = trail_values s1"
    using ua f1(3)
    by (simp add: uniform_trail_values_def requestAnimationFrame_def stats_end_def
        renderer_render_def controls_update_def trail_values_def trail_refs_def
        split: option.splits obj.splits)
  have trace': "trace ?s' = trace s @
       [StatsBegin, ClockAdvanced ?t, TrailAdvanced (trail_values s1), UniformFed ?t,
        ControlsUpdated, Rendered ?t (trail_values s1), StatsEnd, FrameRequested]"
    using utv2
    by (simp add: requestAnimationFrame_def stats_end_def renderer_render_def f1
        controls_update_def)
  have g1: "device_width s1 = device_width s" "device_height s1 = device_height s"
    "camera_aspect s1 = camera_aspect s" "renderer_size s1 = renderer_size s"
    "resize_listener s1 = resize_listener s" "mousemove_listener s1 = mousemove_listener s"
    by (subst s1, simp add: s0)+
  have eq: "?s' = s\<lparr>heap := heap ?s', time := ?t,
                    plane_uniforms := Some (u\<lparr>u_time := ?t\<rparr>),
                    trace := trace s @
                      [StatsBegin, ClockAdvanced ?t, TrailAdvanced (trail_values ?s'),
                       UniformFed ?t, ControlsUpdated, Rendered ?t (trail_values ?s'),
                       StatsEnd, FrameRequested]\<rparr>"
  proof (rule sketch.equality)
    show "trace ?s' = trace (s\<lparr>heap := heap ?s', time := ?t,
                    plane_uniforms := Some (u\<lparr>u_time := ?t\<rparr>),
                    trace := trace s @
                      [StatsBegin, ClockAdvanced ?t, TrailAdvanced (trail_values ?s'),
                       UniformFed ?t, ControlsUpdated, Rendered ?t (trail_values ?s'),
                       StatsEnd, FrameRequested]\<rparr>)"
      using trace' tv' by simp
  qed (simp_all add: requestAnimationFrame_def stats_end_def renderer_render_def
        controls_update_def f1 g1)
  have tok': "trail_ok ?s'"
    using tok1 trail_ok_cong[of ?s' s1] heap' fields' f1 by simp
  have ur': "vec_at (heap ?s') (uResolution u) \<noteq> None"
    using fr1 urt ur by (simp add: heap' vec_at_def)
  have ok': "sketch_ok ?s'"
    using tok' ua urt urm ur' fields' tv' refs1 by (simp add: sketch_ok_def)
  show ?thesis
    apply (intro exI[of _ ?s'] exI[of _ u] conjI)
    subgoal by (rule res)
    subgoal by (rule u)
    subgoal by (rule eq)
    subgoal by (rule ok')
    subgoal using tv' refs1 by simp
    subgoal using tv' vals1 by simp
    subgoal using utv' tv' by simp
    subgoal using fr1 heap' by simp
    done
qed

lemma lookup_vec_update:
  assumes "vec_at h r \<noteq> None" and "lookup h a = Some (Array rs)"
  shows "lookup (h[r := Vector2 x y]) a = Some (Array rs)"
  using assms by (auto simp: lookup_update vec_at_def)

lemma trail_ok_vec_update:
  assumes ok: "trail_ok s" and v: "vec_at (heap s) r \<noteq> None"
  shows "trail_ok (s\<lparr>heap := (heap s)[r := Vector2 x y]\<rparr>)"
    and "trail_refs (s\<lparr>heap := (heap s)[r := Vector2 x y]\<rparr>) = trail_refs s"
proof -
  note d = trail_okD[OF ok]
  have la: "lookup ((heap s)[r := Vector2 x y]) (pointerTrail s) = Some (Array (trail_refs s))"
    using lookup_vec_update[OF v d(1)] .
  show "trail_ok (s\<lparr>heap := (heap s)[r := Vector2 x y]\<rparr>)"
    by (rule trail_okI[where rs = "trail_refs s"]) (use la d in \<open>simp_all add: vec_at_update\<close>)
  show "trail_refs (s\<lparr>heap := (heap s)[r := Vector2 x y]\<rparr>) = trail_refs s"
    using la by (simp add: trail_refs_def)
qed

lemma sketch_ok_vec_update:
  assumes ok: "sketch_ok s" and v: "vec_at (heap s) r \<noteq> None"
  shows "sketch_ok (s\<lparr>heap := (heap s)[r := Vector2 x y]\<rparr>)"
proof -
  from ok have tok: "trail_ok s" by (simp add: sketch_ok_def)
  show ?thesis
    using ok trail_ok_vec_update[OF tok v, of x y]
    by (auto simp: sketch_ok_def vec_at_update split: option.splits)
qed

lemma on_mousemove_effect:
  assumes v: "vec_at (heap s) (mousePosition s) \<noteq> None"
  shows "on_mousemove cx cy r s =
           Inr (s\<lparr>heap := (heap s)[mousePosition s :=
                    Vector2 (pointer_x cx r) (pointer_y cy r)]\<rparr>)"
proof -
  obtain a b where ab: "vec_at (heap s) (mousePosition s) = Some (a, b)"
    using v by (metis not_Some_eq surj_pair)
  have len: "mousePosition s < length (heap s)" using ab by (rule vec_at_in_heap)
  show ?thesis
    using ab len by (simp add: on_mousemove_def set_x_def set_y_def vec_at_update)
qed

lemma new_vectors_eq:
  "new_vectors n h =
     ([length h..<length h + n], h @ replicate n (Vector2 (lit 0) (lit 0)))"
proof (induction n arbitrary: h)
  case 0
  then show ?case by simp
next
  case (Suc n)
  have "[length h..<length h + Suc n] = length h # [Suc (length h)..<Suc (length h) + n]"
    by (simp add: upt_rec)
  then show ?case
    by (simp add: Suc.IH alloc_def replicate_app_Cons_same)
qed

lemma lookup_append_Cons:
  "lookup (vs @ ob # ys) r =
     (if r < length vs then Some (vs ! r)
      else if r = length vs then Some ob
      else lookup ys (r - Suc (length vs)))"
  by (auto simp: lookup_def nth_append nth_Cons' intro!: arg_cong[where f = "(!) ys"])

lemma fields_eq:
  "initial_fields w h =
     \<lparr>heap = replicate 16 (Vector2 (lit 0) (lit 0)) @ [Array [1..<16]],
      device_width = w, device_height = h, time = lit 0,
      trailLength = 15, pointerTrail = 16, mousePosition = 0,
      camera_aspect = fdiv w h, renderer_size = (w, h),
      plane_uniforms = None, resize_listener = False, mousemove_listener = False,
      trace = []\<rparr>"
proof -
  have "replicate 16 (Vector2 (lit 0) (lit 0)) =
        Vector2 (lit 0) (lit 0) # replicate 15 (Vector2 (lit 0) (lit 0))"
    by (simp add: numeral_eq_Suc)
  then show ?thesis by (simp add: initial_fields_def alloc_def new_vectors_eq)
qed

lemma addGeometry_fields_eq:
  "addGeometry (initial_fields w h) =
     \<lparr>heap = replicate 16 (Vector2 (lit 0) (lit 0)) @ [Array [1..<16], Vector2 w h],
      device_width = w, device_height = h, time = lit 0,
      trailLength = 15, pointerTrail = 16, mousePosition = 0,
      camera_aspect = fdiv w h, renderer_size = (w, h),
      plane_uniforms = Some \<lparr>u_time = lit 0, uResolution = 17, uPointerTrail = 16\<rparr>,
      resize_listener = False, mousemove_listener = False, trace = []\<rparr>"
  by (simp add: fields_eq addGeometry_def alloc_def)

lemma fields_lookup:
  "lookup (heap (initial_fields w h)) r =
      (if r < 16 then Some (Vector2 (lit 0) (lit 0))
       else if r = 16 then Some (Array [1..<16]) else None)"
  by (simp add: fields_eq lookup_append_Cons) (simp add: lookup_def)

lemma fields_vec_at:
  "vec_at (heap (initial_fields w h)) r = (if r < 16 then Some (lit 0, lit 0) else None)"
  by (simp add: vec_at_def fields_lookup)

lemma trail_ok_fields: "trail_ok (initial_fields w h)"
proof -
  have f: "pointerTrail (initial_fields w h) = 16" "mousePosition (initial_fields w h) = 0"
    "trailLength (initial_fields w h) = 15"
    by (simp_all add: fields_eq)
  show ?thesis
    by (rule trail_okI[where rs = "[1..<16]"]) (simp_all add: fields_lookup fields_vec_at f)
qed

lemma addGeometry_fields_lookup:
  "lookup (heap (addGeometry (initial_fields w h))) r =
      (if r < 16 then Some (Vector2 (lit 0) (lit 0))
       else if r = 16 then Some (Array [1..<16])
       else if r = 17 then Some (Vector2 w h) else None)"
  by (simp add: addGeometry_fields_eq lookup_append_Cons) (simp add: lookup_def)

lemma addGeometry_fields_vec_at:
  "vec_at (heap (addGeometry (initial_fields w h))) r =
      (if r < 16 then Some (lit 0, lit 0) else if r = 17 then Some (w, h) else None)"
  by (simp add: vec_at_def addGeometry_fields_lookup)

lemma sketch_ok_addGeometry: "sketch_ok (addGeometry (initial_fields w h))"
proof -
  let ?s = "addGeometry (initial_fields w h)"
  note L = addGeometry_fields_lookup and V = addGeometry_fields_vec_at
  have f: "pointerTrail ?s = 16" "mousePosition ?s = 0" "trailLength ?s = 15"
    "plane_uniforms ?s = Some \<lparr>u_time = lit 0, uResolution = 17, uPointerTrail = 16\<rparr>"
    by (simp_all add: addGeometry_fields_eq)
  have tok: "trail_ok ?s"
    by (rule trail_okI[where rs = "[1..<16]"]) (simp_all add: L V f)
  have refs: "trail_refs ?s = [1..<16]" by (simp add: trail_refs_def L f)
  show ?thesis by (simp add: sketch_ok_def tok refs f V)
qed

lemma sketch_ok_trail_ok: "sketch_ok s \<Longrightarrow> trail_ok s"
  by (simp add: sketch_ok_def)

lemma onResize_eq:
  "onResize w h s = s\<lparr>device_width := w, device_height := h,
                       camera_aspect := fdiv w h, renderer_size := (w, h)\<rparr>"
  by (simp add: onResize_def Let_def)

lemma sketch_ok_onResize: "sketch_ok (onResize w h s) = sketch_ok s"
  by (simp add: onResize_eq sketch_ok_def trail_ok_def trail_refs_def
      split: option.splits obj.splits)

lemma resolution_value_onResize: "resolution_value (onResize w h s) = resolution_value s"
  by (simp add: onResize_eq resolution_value_def split: option.splits)

lemma trail_values_onResize: "trail_values (onResize w h s) = trail_values s"
  by (simp add: onResize_eq trail_values_def trail_refs_def)

lemma session_inv_render:
  assumes "session_inv w h s"
  shows "\<exists>s'. render s = Inr s' \<and> session_inv w h s'"
proof -
  from assms have ok: "sketch_ok s" and n: "trailLength s = 15"
    and rv: "resolution_value s = Some (w, h)"
    by (simp_all add: session_inv_def)
  from render_effect[OF ok] obtain s' u
    where r: "render s = Inr s'" and u: "plane_uniforms s = Some u"
      and eq: "s' = s\<lparr>heap := heap s',
                  time := fadd (time s) (lit (1 / 100)),
                  plane_uniforms := Some (u\<lparr>u_time := fadd (time s) (lit (1 / 100))\<rparr>),
                  trace := trace s @
                    [StatsBegin,
                     ClockAdvanced (fadd (time s) (lit (1 / 100))),
                     TrailAdvanced (trail_values s'),
                     UniformFed (fadd (time s) (lit (1 / 100))),
                     ControlsUpdated,
                     Rendered (fadd (time s) (lit (1 / 100))) (trail_values s'),
                     StatsEnd,
                     FrameRequested]\<rparr>"
      and ok': "sketch_ok s'"
      and fr: "\<forall>r. r \<notin> set (trail_refs s) \<longrightarrow> lookup (heap s') r = lookup (heap s) r"
    by blast
  have n': "trailLength s' = 15" by (subst eq) (simp add: n)
  have pu: "plane_uniforms s' = Some (u\<lparr>u_time := fadd (time s) (lit (1 / 100))\<rparr>)"
    by (subst eq) simp
  have "uResolution u \<notin> set (trail_refs s)"
    using ok u by (simp add: sketch_ok_def)
  then have "vec_at (heap s') (uResolution u) = vec_at (heap s) (uResolution u)"
    using fr by (simp add: vec_at_def)
  then have "resolution_value s' = Some (w, h)"
    using rv u pu by (simp add: resolution_value_def)
  with r ok' n' show ?thesis by (auto simp: session_inv_def)
qed

lemma session_inv_mousemove:
  assumes "session_inv w h s"
  shows "\<exists>s'. on_mousemove cx cy r s = Inr s' \<and> session_inv w h s'"
proof -
  from assms have ok: "sketch_ok s" and n: "trailLength s = 15"
    and rv: "resolution_value s = Some (w, h)"
    by (simp_all add: session_inv_def)
  have v: "vec_at (heap s) (mousePosition s) \<noteq> None"
    using trail_okD(6)[OF sketch_ok_trail_ok[OF ok]] .
  let ?s' = "s\<lparr>heap := (heap s)[mousePosition s := Vector2 (pointer_x cx r) (pointer_y cy r)]\<rparr>"
  have r: "on_mousemove cx cy r s = Inr ?s'" by (rule on_mousemove_effect[OF v])
  have ok': "sketch_ok ?s'" by (rule sketch_ok_vec_update[OF ok v])
  have "resolution_value ?s' = Some (w, h)"
    using rv ok by (auto simp: resolution_value_def sketch_ok_def vec_at_update
        split: option.splits)
  with r ok' n show ?thesis by (simp add: session_inv_def)
qed

lemma session_inv_dispatch:
  assumes "session_inv w h s"
  shows "\<exists>s'. dispatch e s = Inr s' \<and> session_inv w h s'"
proof (cases e)
  case (Tick ts)
  then show ?thesis using session_inv_render[OF assms] by simp
next
  case (Resize w' h')
  have "session_inv w h (onResize w' h' s)"
    using assms
    by (simp add: session_inv_def sketch_ok_onResize resolution_value_onResize)
       (simp add: onResize_eq)
  then show ?thesis using Resize assms by simp
next
  case (MouseMove cx cy r)
  then show ?thesis using session_inv_mousemove[OF assms] assms by simp
qed

lemma session_inv_run:
  assumes "session_inv w h s"
  shows "\<exists>s'. run es s = Inr s' \<and> session_inv w h s'"
  using assms
proof (induction es arbitrary: s)
  case Nil
  then show ?case by simp
next
  case (Cons e es)
  from session_inv_dispatch[OF Cons.prems] obtain s1
    where "dispatch e s = Inr s1" and "session_inv w h s1" by blast
  with Cons.IH[of s1] show ?case by simp
qed

lemma session_inv_addGeometry: "session_inv w h (addGeometry (initial_fields w h))"
proof -
  have f: "trailLength (addGeometry (initial_fields w h)) = 15"
    "plane_uniforms (addGeometry (initial_fields w h)) =
       Some \<lparr>u_time = lit 0, uResolution = 17, uPointerTrail = 16\<rparr>"
    by (simp_all add: addGeometry_fields_eq)
  show ?thesis
    by (simp add: session_inv_def sketch_ok_addGeometry resolution_value_def f
        addGeometry_fields_vec_at)
qed

lemma listener_frame:
  "sketch_ok (resize s) = sketch_ok s"
  "sketch_ok (createMouseTracker s) = sketch_ok s"
  "resolution_value (resize s) = resolution_value s"
  "resolution_value (createMouseTracker s) = resolution_value s"
  "trail_values (resize s) = trail_values s"
  "trail_values (createMouseTracker s) = trail_values s"
  by (simp_all add: resize_def createMouseTracker_def sketch_ok_def trail_ok_def
      trail_refs_def resolution_value_def trail_values_def split: option.splits obj.splits)

lemma session_inv_listeners:
  "session_inv w h (resize s) = session_inv w h s"
  "session_inv w h (createMouseTracker s) = session_inv w h s"
  by (simp_all add: session_inv_def listener_frame) (simp_all add: resize_def createMouseTracker_def)

text \<open>The constructor: the first frame, drawn with the resize listener installed.\<close>

lemma constructor_result:
  "\<exists>s0. render (resize (addGeometry (initial_fields w h))) = Inr s0 \<and>
        constructor w h = Inr (createMouseTracker s0) \<and>
        session_inv w h s0 \<and> resize_listener s0"
proof -
  let ?s = "resize (addGeometry (initial_fields w h))"
  have inv: "session_inv w h ?s"
    using session_inv_addGeometry by (simp add: session_inv_listeners)
  from session_inv_render[OF inv] obtain s0
    where r: "render ?s = Inr s0" and inv0: "session_inv w h s0" by blast
  have ok: "sketch_ok ?s" using inv by (simp add: session_inv_def)
  from render_effect[OF ok] r obtain u
    where eq: "s0 = ?s\<lparr>heap := heap s0,
                  time := fadd (time ?s) (lit (1 / 100)),
                  plane_uniforms := Some (u\<lparr>u_time := fadd (time ?s) (lit (1 / 100))\<rparr>),
                  trace := trace ?s @
                    [StatsBegin,
                     ClockAdvanced (fadd (time ?s) (lit (1 / 100))),
                     TrailAdvanced (trail_values s0),
                     UniformFed (fadd (time ?s) (lit (1 / 100))),
                     ControlsUpdated,
                     Rendered (fadd (time ?s) (lit (1 / 100))) (trail_values s0),
                     StatsEnd,
                     FrameRequested]\<rparr>"
    by auto
  have "resize_listener s0" by (subst eq) (simp add: resize_def)
  with r inv0 show ?thesis by (simp add: constructor_def init_def)
qed

lemma session_inv_constructor:
  "\<exists>s. constructor w h = Inr s \<and> session_inv w h s"
  using constructor_result[of w h] by (auto simp: session_inv_listeners)

lemma session_inv_session:
  "\<exists>s. session w h es = Inr s \<and> session_inv w h s"
proof -
  from session_inv_constructor obtain s0
    where "constructor w h = Inr s0" and "session_inv w h s0" by blast
  with session_inv_run[of w h s0 es] show ?thesis by (simp add: session_def)
qed

lemma advances_trail_ok:
  assumes "trail_ok s"
  shows "\<exists>s'. advances n s = Inr s' \<and> trail_ok s' \<and> trailLength s' = trailLength s \<and>
           length (trail_values s') = length (trail_values s)"
  using assms
proof (induction n arbitrary: s)
  case 0
  then show ?case by simp
next
  case (Suc n)
  from updatePointerTrail_effect[OF Suc.prems] obtain s1
    where up: "updatePointerTrail s = Inr s1"
      and eq: "s1 = s\<lparr>heap := heap s1, trace := trace s @ [TrailAdvanced (trail_values s1)]\<rparr>"
      and ok1: "trail_ok s1" and refs: "trail_refs s1 = trail_refs s"
    by blast
  have n1: "trailLength s1 = trailLength s" by (subst eq) simp
  have l1: "length (trail_values s1) = length (trail_values s)"
    using refs by (simp add: trail_values_def)
  from Suc.IH[OF ok1] up n1 l1 show ?case by auto
qed

lemma butlast_replicate_Suc: "butlast (replicate (Suc n) z) = replicate n z"
  by (induction n) simp_all

lemma replicate_shift:
  assumes "0 < n"
  shows "z # butlast (replicate n z) = replicate n z"
proof (cases n)
  case 0
  with assms show ?thesis by simp
next
  case (Suc k)
  have "z # butlast (replicate (Suc k) z) = z # replicate k z"
    by (simp only: butlast_replicate_Suc)
  then show ?thesis using Suc by simp
qed

lemma at_rest_updatePointerTrail:
  assumes ok: "trail_ok s" and rest: "at_rest s"
  shows "\<exists>s'. updatePointerTrail s = Inr s' \<and> trail_ok s' \<and> at_rest s'"
proof -
  note d = trail_okD[OF ok]
  from updatePointerTrail_effect[OF ok] obtain s'
    where up: "updatePointerTrail s = Inr s'"
      and eq: "s' = s\<lparr>heap := heap s', trace := trace s @ [TrailAdvanced (trail_values s')]\<rparr>"
      and ok': "trail_ok s'"
      and vals: "trail_values s' = vec_at (heap s) (mousePosition s) # butlast (trail_values s)"
      and fr: "\<forall>r. r \<notin> set (trail_refs s) \<longrightarrow> lookup (heap s') r = lookup (heap s) r"
    by blast
  have f: "trailLength s' = trailLength s" "mousePosition s' = mousePosition s"
    by (subst eq, simp)+
  have m: "vec_at (heap s') (mousePosition s') = Some (lit 0, lit 0)"
    using fr d(7) rest by (simp add: f vec_at_def at_rest_def)
  have "trail_values s' = replicate (trailLength s) (Some (lit 0, lit 0))"
    using vals rest d(2,3) by (simp add: at_rest_def replicate_shift)
  with up ok' m f show ?thesis by (auto simp: at_rest_def)
qed

lemma at_rest_advances:
  assumes "trail_ok s" and "at_rest s"
  shows "\<exists>s'. advances n s = Inr s' \<and> trail_ok s' \<and> at_rest s'"
  using assms
proof (induction n arbitrary: s)
  case 0
  then show ?case by simp
next
  case (Suc n)
  from at_rest_updatePointerTrail[OF Suc.prems] obtain s1
    where "updatePointerTrail s = Inr s1" "trail_ok s1" "at_rest s1" by blast
  with Suc.IH[of s1] show ?case by simp
qed

lemma at_rest_render:
  assumes ok: "sketch_ok s" and rest: "at_rest s" and r: "render s = Inr s'"
  shows "at_rest s'"
proof -
  note d = trail_okD[OF sketch_ok_trail_ok[OF ok]]
  from render_effect[OF ok] r obtain u
    where eq: "s' = s\<lparr>heap := heap s',
                  time := fadd (time s) (lit (1 / 100)),
                  plane_uniforms := Some (u\<lparr>u_time := fadd (time s) (lit (1 / 100))\<rparr>),
                  trace := trace s @
                    [StatsBegin,
                     ClockAdvanced (fadd (time s) (lit (1 / 100))),
                     TrailAdvanced (trail_values s'),
                     UniformFed (fadd (time s) (lit (1 / 100))),
                     ControlsUpdated,
                     Rendered (fadd (time s) (lit (1 / 100))) (trail_values s'),
                     StatsEnd,
                     FrameRequested]\<rparr>"
      and vals: "trail_values s' = vec_at (heap s) (mousePosition s) # butlast (trail_values s)"
      and fr: "\<forall>r. r \<notin> set (trail_refs s) \<longrightarrow> lookup (heap s') r = lookup (heap s) r"
    by auto
  have f: "trailLength s' = trailLength s" "mousePosition s' = mousePosition s"
    by (subst eq, simp)+
  have m: "vec_at (heap s') (mousePosition s') = Some (lit 0, lit 0)"
    using fr d(7) rest by (simp add: f vec_at_def at_rest_def)
  have "trail_values s' = replicate (trailLength s) (Some (lit 0, lit 0))"
    using vals rest d(2,3) by (simp add: at_rest_def replicate_shift)
  with m f show ?thesis by (simp add: at_rest_def)
qed

lemma at_rest_onResize: "at_rest (onResize w h s) = at_rest s"
  by (simp add: at_rest_def trail_values_onResize) (simp add: onResize_eq)

lemma at_rest_listeners:
  "at_rest (resize s) = at_rest s"
  "at_rest (createMouseTracker s) = at_rest s"
  by (simp_all add: at_rest_def listener_frame) (simp_all add: resize_def createMouseTracker_def)

lemma at_rest_run:
  assumes "session_inv w h s" and "at_rest s" and "list_all (\<lambda>e. \<not> is_mousemove e) es"
  shows "\<exists>s'. run es s = Inr s' \<and> session_inv w h s' \<and> at_rest s'"
  using assms
proof (induction es arbitrary: s)
  case Nil
  then show ?case by simp
next
  case (Cons e es)
  from session_inv_dispatch[OF Cons.prems(1)] obtain s1
    where d: "dispatch e s = Inr s1" and inv1: "session_inv w h s1" by blast
  have "at_rest s1"
  proof (cases e)
    case (Tick ts)
    then show ?thesis
      using d at_rest_render[OF _ Cons.prems(2)] Cons.prems(1) by (simp add: session_inv_def)
  next
    case (Resize w' h')
    then show ?thesis using d Cons.prems(2) at_rest_onResize by (auto split: if_splits)
  next
    case (MouseMove cx cy r)
    then show ?thesis using Cons.prems(3) by simp
  qed
  with Cons.IH[OF inv1] Cons.prems(3) d show ?case by simp
qed

lemma at_rest_fields: "at_rest (initial_fields w h)"
proof -
  have f: "pointerTrail (initial_fields w h) = 16" "mousePosition (initial_fields w h) = 0"
    "trailLength (initial_fields w h) = 15"
    by (simp_all add: fields_eq)
  have refs: "trail_refs (initial_fields w h) = [1..<16]"
    by (simp add: trail_refs_def fields_lookup f)
  have "map (vec_at (heap (initial_fields w h))) [1..<16] = replicate 15 (Some (lit 0, lit 0))"
    by (rule nth_equalityI) (simp_all add: fields_vec_at)
  then show ?thesis by (simp add: at_rest_def trail_values_def refs f fields_vec_at)
qed

lemma at_rest_addGeometry: "at_rest (addGeometry (initial_fields w h))"
proof -
  let ?s = "addGeometry (initial_fields w h)"
  have f: "pointerTrail ?s = 16" "mousePosition ?s = 0" "trailLength ?s = 15"
    by (simp_all add: addGeometry_fields_eq)
  have refs: "trail_refs ?s = [1..<16]"
    by (simp add: trail_refs_def addGeometry_fields_lookup f)
  have "map (vec_at (heap ?s)) [1..<16] = replicate 15 (Some (lit 0, lit 0))"
    by (rule nth_equalityI) (simp_all add: addGeometry_fields_vec_at)
  then show ?thesis
    by (simp add: at_rest_def trail_values_def refs f addGeometry_fields_vec_at)
qed

lemma at_rest_session:
  assumes "list_all (\<lambda>e. \<not> is_mousemove e) es"
  shows "\<exists>s. session w h es = Inr s \<and> session_inv w h s \<and> at_rest s"
proof -
  let ?s = "resize (addGeometry (initial_fields w h))"
  from constructor_result[of w h] obtain s0
    where r: "render ?s = Inr s0" and c: "constructor w h = Inr (createMouseTracker s0)"
      and inv: "session_inv w h s0"
    by blast
  have ok: "sketch_ok ?s" by (simp add: listener_frame sketch_ok_addGeometry)
  have rest: "at_rest ?s" using at_rest_addGeometry[of w h] by (simp add: at_rest_listeners)
  have "at_rest s0" by (rule at_rest_render[OF ok rest r])
  then have rest1: "at_rest (createMouseTracker s0)" by (simp add: at_rest_listeners)
  have inv1: "session_inv w h (createMouseTracker s0)"
    using inv by (simp add: session_inv_listeners)
  from at_rest_run[OF inv1 rest1 assms] c show ?thesis by (simp add: session_def)
qed

lemma example_sketch_inv: "session_inv (lit 800) (lit 600) example_sketch"
proof -
  from session_inv_session obtain s
    where "session (lit 800) (lit 600) example_events = Inr s"
      and "session_inv (lit 800) (lit 600) s" by blast
  then show ?thesis by (simp add: example_sketch_def)
qed

lemma example_sketch_ok: "sketch_ok example_sketch"
  using example_sketch_inv by (simp add: session_inv_def)

lemma example_trail_ok: "trail_ok example_sketch"
  using example_sketch_ok by (rule sketch_ok_trail_ok)

section \<open>The pointer at the corners and the centre\<close>

lemma round_num_0: "round_num s 0 = Dbl s 0"
  by (simp add: round_num_def round_mag_def)

lemma round_num_1: "round_num s 1 = Dbl s 1"
  by (simp add: round_num_def round_mag_1)

lemma round_num_2: "round_num s 2 = Dbl s 2"
  by (simp add: round_num_def round_mag_2)

lemma round_num_half: "round_num s (1 / 2) = Dbl s (1 / 2)"
  by (simp add: round_num_def round_mag_half)

lemma lit_1: "lit 1 = Dbl False 1"
  by (simp add: lit_def round_num_1)

lemma lit_2: "lit 2 = Dbl False 2"
  by (simp add: lit_def round_num_2)

lemma lit_minus_1: "lit (- 1) = Dbl True 1"
  by (simp add: lit_def round_num_1)

lemma fsub_Dbl: "fsub (Dbl s a) (Dbl t b) = fadd (Dbl s a) (Dbl (\<not> t) b)"
  by (simp add: fsub_def)

lemma fsub_self: "fsub (Dbl s a) (Dbl s a) = Dbl False 0"
  by (simp add: fsub_def sval_def)

lemma is_positiveE:
  assumes "is_positive n"
  obtains w where "n = Dbl False w" and "0 < w"
  using assms by (cases n) auto

lemma is_finiteE:
  assumes "is_finite n"
  obtains s a where "n = Dbl s a"
  using assms by (cases n) auto

lemma pointer_x_origin:
  assumes "is_finite (left r)" and "is_positive (width r)"
  shows "pointer_x (left r) r = lit (- 1)"
proof -
  from assms(1) obtain s a where l: "left r = Dbl s a" by (rule is_finiteE)
  from assms(2) obtain w where w: "width r = Dbl False w" "0 < w" by (rule is_positiveE)
  show ?thesis
    using w(2)
    by (simp add: pointer_x_def l w(1) fsub_self round_num_0 lit_1 lit_2 lit_minus_1)
       (simp add: fsub_Dbl sval_def round_num_1)
qed

lemma pointer_y_origin:
  assumes "is_finite (top r)" and "is_positive (height r)"
  shows "pointer_y (top r) r = lit 1"
proof -
  from assms(1) obtain s a where l: "top r = Dbl s a" by (rule is_finiteE)
  from assms(2) obtain w where w: "height r = Dbl False w" "0 < w" by (rule is_positiveE)
  show ?thesis
    using w(2)
    by (simp add: pointer_y_def l w(1) fsub_self round_num_0 lit_1 lit_2 sval_def round_num_1)
qed

lemma pointer_x_far:
  assumes "is_positive (width r)" and "fsub cx (left r) = width r"
  shows "pointer_x cx r = lit 1"
proof -
  from assms(1) obtain w where w: "width r = Dbl False w" "0 < w" by (rule is_positiveE)
  show ?thesis
    using w(2)
    by (simp add: pointer_x_def assms(2) w(1) round_num_1 round_num_2 lit_1 lit_2
        fsub_Dbl sval_def)
qed

lemma pointer_y_far:
  assumes "is_positive (height r)" and "fsub cy (top r) = height r"
  shows "pointer_y cy r = lit (- 1)"
proof -
  from assms(1) obtain w where w: "height r = Dbl False w" "0 < w" by (rule is_positiveE)
  show ?thesis
    using w(2)
    by (simp add: pointer_y_def assms(2) w(1) round_num_1 round_num_2 lit_1 lit_2
        lit_minus_1 sval_def)
qed

lemma half_ofE:
  assumes "half_of d n" and "is_positive n"
  obtains a w where "d = Dbl False a" and "n = Dbl False w" and "2 * a = w" and "0 < w"
  using assms by (cases d; cases n) auto

lemma pointer_x_centre:
  assumes "is_positive (width r)" and "half_of (fsub cx (left r)) (width r)"
  shows "pointer_x cx r = lit 0"
proof -
  from assms(2,1) obtain a w
    where d: "fsub cx (left r) = Dbl False a" and w: "width r = Dbl False w"
      and h: "2 * a = w" and p: "0 < w"
    by (rule half_ofE)
  have q: "a / w = 1 / 2" using h p by (auto simp: field_simps)
  have nz: "w \<noteq> 0" using p by simp
  show ?thesis
    by (simp add: pointer_x_def d w nz q round_num_half round_num_1 lit_1 lit_2 lit_0
        fsub_Dbl sval_def)
qed

lemma pointer_y_centre:
  assumes "is_positive (height r)" and "half_of (fsub cy (top r)) (height r)"
  shows "pointer_y cy r = lit 0"
proof -
  from assms(2,1) obtain a w
    where d: "fsub cy (top r) = Dbl False a" and w: "height r = Dbl False w"
      and h: "2 * a = w" and p: "0 < w"
    by (rule half_ofE)
  have q: "a / w = 1 / 2" using h p by (auto simp: field_simps)
  have nz: "w \<noteq> 0" using p by simp
  show ?thesis
    by (simp add: pointer_y_def d w nz q round_num_half round_num_1 lit_1 lit_2 lit_0
        sval_def)
qed

lemma on_mousemove_pointer:
  assumes "vec_at (heap s) (mousePosition s) \<noteq> None"
  shows "\<exists>s'. on_mousemove cx cy r s = Inr s' \<and>
           vec_at (heap s') (mousePosition s') = Some (pointer_x cx r, pointer_y cy r) \<and>
           heap s' = (heap s)[mousePosition s := Vector2 (pointer_x cx r) (pointer_y cy r)]"
proof -
  from assms obtain v where "vec_at (heap s) (mousePosition s) = Some v" by auto
  then have "mousePosition s < length (heap s)" by (rule vec_at_in_heap)
  then show ?thesis
    by (simp add: on_mousemove_effect[OF assms] vec_at_update)
qed

lemma round_mag_8: "round_mag 8 = Some 8"
  by (subst round_mag_normal[where e = 3]) (simp_all add: round_eval)

lemma round_mag_16: "round_mag 16 = Some 16"
  by (subst round_mag_normal[where e = 4]) (simp_all add: round_eval)

lemma round_mag_300: "round_mag 300 = Some 300"
  by (subst round_mag_normal[where e = 8]) (simp_all add: round_eval)

lemma round_mag_400: "round_mag 400 = Some 400"
  by (subst round_mag_normal[where e = 8]) (simp_all add: round_eval)

lemma round_mag_408: "round_mag 408 = Some 408"
  by (subst round_mag_normal[where e = 8]) (simp_all add: round_eval)

lemma round_mag_316: "round_mag 316 = Some 316"
  by (subst round_mag_normal[where e = 8]) (simp_all add: round_eval)

lemma round_mag_600: "round_mag 600 = Some 600"
  by (subst round_mag_normal[where e = 9]) (simp_all add: round_eval)

lemma round_mag_800: "round_mag 800 = Some 800"
  by (subst round_mag_normal[where e = 9]) (simp_all add: round_eval)

lemma round_mag_616: "round_mag 616 = Some 616"
  by (subst round_mag_normal[where e = 9]) (simp_all add: round_eval)

lemma round_mag_808: "round_mag 808 = Some 808"
  by (subst round_mag_normal[where e = 9]) (simp_all add: round_eval)

lemmas round_mag_small = round_mag_8 round_mag_16 round_mag_300 round_mag_400 round_mag_408
  round_mag_316 round_mag_600 round_mag_800 round_mag_616 round_mag_808

lemma lit_small:
  "lit 8 = Dbl False 8" "lit 16 = Dbl False 16"
  "lit 408 = Dbl False 408" "lit 316 = Dbl False 316"
  "lit 600 = Dbl False 600" "lit 800 = Dbl False 800"
  "lit 616 = Dbl False 616" "lit 808 = Dbl False 808"
  by (simp_all add: lit_def round_num_def round_mag_small)

lemma example_rect_proper: "proper_rect example_rect"
  by (simp add: proper_rect_def example_rect_def lit_small)

lemma example_offsets:
  "fsub (lit 808) (left example_rect) = width example_rect"
  "fsub (lit 616) (top example_rect) = height example_rect"
  "half_of (fsub (lit 408) (left example_rect)) (width example_rect)"
  "half_of (fsub (lit 316) (top example_rect)) (height example_rect)"
  by (simp_all add: example_rect_def lit_small fsub_Dbl sval_def round_num_def round_mag_small)

lemma example_mouse: "vec_at (heap example_sketch) (mousePosition example_sketch) \<noteq> None"
  using example_trail_ok by (rule trail_okD(6))

section \<open>The frame clock in binary64\<close>

lemma lit_hundredth: "lit (1 / 100) = Dbl False step_value"
  by (simp add: lit_def round_num_def round_mag_hundredth step_value_def)

lemma step_value_bounds: "0 < step_value" "step_value < 1 / 64" "1 / 128 \<le> step_value"
  by (simp_all add: step_value_def)

lemma is_double_step: "is_double step_value"
proof -
  have "round_mag (1 / 100) = Some step_value"
    by (simp add: round_mag_hundredth step_value_def)
  then show ?thesis by (rule round_mag_is_double[rotated]) simp
qed

lemma is_double_2_47: "is_double (2 ^ 47)"
proof -
  have "round_mag (2 ^ 47) = Some (2 ^ 47)"
    by (subst round_mag_normal[where e = 47]) (simp_all add: round_eval)
  then show ?thesis by (simp add: is_double_def)
qed

lemma rne_near:
  assumes "of_int n \<le> k" and "k < of_int n + 1 / 2"
  shows "rne k = n"
proof -
  have "\<lfloor>k\<rfloor> = n" using assms by linarith
  then show ?thesis using assms by (simp add: rne_def Let_def)
qed

lemma round_mag_above_2_47:
  assumes "2 ^ 47 \<le> x" and "x \<le> 2 ^ 47 + step_value"
  shows "round_mag x = Some (2 ^ 47)"
proof -
  have lo: "2 powi 47 \<le> x" using assms(1) by simp
  have hi: "x < 2 powi (47 + 1)" using assms(2) step_value_bounds(2) by simp
  have "rne (x / 2 powi (47 - 52)) = 2 ^ 52"
  proof (rule rne_near)
    show "of_int (2 ^ 52) \<le> x / 2 powi (47 - 52)" using assms(1) by (simp add: field_simps)
    show "x / 2 powi (47 - 52) < of_int (2 ^ 52) + 1 / 2"
      using assms(2) step_value_bounds(2) by (simp add: field_simps)
  qed
  then show ?thesis
    by (subst round_mag_normal[OF lo hi]) simp_all
qed

text \<open>One addition of the step to a binary64 value that has not passed \<open>2 ^ 47\<close>.\<close>

lemma clock_step:
  assumes d: "is_double t" and hi: "t \<le> 2 ^ 47"
  shows "\<exists>t'. fadd (Dbl False t) (lit (1 / 100)) = Dbl False t' \<and>
           round_mag (t + step_value) = Some t' \<and>
           is_double t' \<and> t \<le> t' \<and> t' \<le> 2 ^ 47"
proof -
  from d have t0: "0 \<le> t" by (simp add: is_double_def)
  let ?x = "t + step_value"
  have xpos: "0 < ?x" using t0 step_value_bounds(1) by simp
  have ex: "\<exists>t'. round_mag ?x = Some t' \<and> t' \<le> 2 ^ 47"
  proof (cases "?x \<le> 2 ^ 47")
    case True
    then show ?thesis using round_mag_upper[OF xpos _ is_double_2_47] by simp
  next
    case False
    then have "2 ^ 47 \<le> ?x" by simp
    moreover have "?x \<le> 2 ^ 47 + step_value" using hi by simp
    ultimately show ?thesis using round_mag_above_2_47 by simp
  qed
  then obtain t' where r: "round_mag ?x = Some t'" and le: "t' \<le> 2 ^ 47" by blast
  have "0 \<le> ?x" using xpos by (rule less_imp_le)
  then have dd: "is_double t'" using r by (rule round_mag_is_double)
  have ge: "t \<le> t'"
  proof (cases "t = 0")
    case True
    then show ?thesis using dd by (simp add: is_double_def)
  next
    case False
    with t0 have tpos: "0 < t" by simp
    have "t \<le> ?x" using step_value_bounds(1) by linarith
    then show ?thesis by (rule round_mag_lower[OF tpos d _ r])
  qed
  have "fadd (Dbl False t) (lit (1 / 100)) = Dbl False t'"
    using xpos r by (simp add: lit_hundredth sval_def round_num_def)
  with r dd ge le show ?thesis by blast
qed

lemma frame_time_finite:
  "\<exists>t. frame_time k = Dbl False t \<and> is_double t \<and> t \<le> 2 ^ 47"
proof (induction k)
  case 0
  show ?case by (simp add: lit_0 is_double_0)
next
  case (Suc k)
  then obtain t where t: "frame_time k = Dbl False t" "is_double t" "t \<le> 2 ^ 47" by blast
  from clock_step[OF t(2,3)] t(1) show ?case by auto
qed

lemma frame_time_mono: "fle (frame_time k) (frame_time (Suc k))"
proof -
  from frame_time_finite[of k] obtain t
    where t: "frame_time k = Dbl False t" "is_double t" "t \<le> 2 ^ 47" by blast
  from clock_step[OF t(2,3)] obtain t'
    where "fadd (Dbl False t) (lit (1 / 100)) = Dbl False t'" "t \<le> t'" by blast
  then show ?thesis using t(1) by (simp add: sval_def)
qed

lemma frame_time_bounded: "fle (frame_time k) (Dbl False (2 ^ 47))"
  using frame_time_finite[of k] by (auto simp: sval_def)

lemma round_mag_relative_error:
  assumes lo: "2 powi (- 1022) \<le> m" and r: "round_mag m = Some r"
  shows "\<bar>r - m\<bar> \<le> m / 2 ^ 53"
proof -
  have m: "0 < m" using lo by (meson less_le_trans pow2_pos)
  have "\<bar>r - m\<bar> \<le> ulp m / 2" by (rule round_mag_error[OF m r])
  also have "\<dots> \<le> (m * 2 powi (- 52)) / 2"
    using ulp_relative[OF lo] by (simp add: divide_right_mono)
  also have "\<dots> = m / 2 ^ 53" by (simp add: power_int_minus field_simps)
  finally show ?thesis .
qed

lemma step_value_normal: "2 powi (- 1022) \<le> step_value"
proof -
  have "(2::rat) powi (- 1022) \<le> 2 powi (- 7)" by (rule pow2_mono) simp
  also have "\<dots> \<le> step_value" using step_value_bounds(3) by (simp add: power_int_minus)
  finally show ?thesis .
qed

lemma frame_time_drift:
  assumes "k \<le> N" and "N \<le> 2 ^ 52"
  shows "\<exists>t. frame_time k = Dbl False t \<and>
           \<bar>t - of_nat k * step_value\<bar> \<le> of_nat k * (of_nat N * step_value / 2 ^ 52)"
  using assms(1)
proof (induction k)
  case 0
  show ?case by (simp add: lit_0)
next
  case (Suc k)
  define c where "c = step_value"
  define D where "D = of_nat N * c / 2 ^ 52"
  have cpos: "0 < c" unfolding c_def by (rule step_value_bounds(1))
  have D0: "0 \<le> D" unfolding D_def using cpos by simp
  from Suc.prems have kN: "k \<le> N" by simp
  from Suc.IH[OF kN] obtain t
    where t: "frame_time k = Dbl False t"
      and e: "\<bar>t - of_nat k * c\<bar> \<le> of_nat k * D"
    unfolding c_def D_def by blast
  from frame_time_finite[of k] t have d: "is_double t" and hi: "t \<le> 2 ^ 47" by auto
  from clock_step[OF d hi] obtain t'
    where f: "fadd (Dbl False t) (lit (1 / 100)) = Dbl False t'"
      and r: "round_mag (t + c) = Some t'"
    unfolding c_def by blast
  have t0: "0 \<le> t" using d by (simp add: is_double_def)
  let ?x = "t + c"
  have "c \<le> ?x" using t0 by simp
  then have xlo: "2 powi (- 1022) \<le> ?x"
    using step_value_normal unfolding c_def by (rule order_trans[rotated])
  have err: "\<bar>t' - ?x\<bar> \<le> ?x / 2 ^ 53" by (rule round_mag_relative_error[OF xlo r])
  have k52: "(of_nat k :: rat) \<le> 2 ^ 52"
  proof -
    have "k \<le> 2 ^ 52" using kN assms(2) by simp
    then have "(of_nat k :: rat) \<le> of_nat (2 ^ 52)" by (simp only: of_nat_le_iff)
    then show ?thesis by simp
  qed
  have "(of_nat (Suc k) :: rat) \<le> of_nat N" using Suc.prems by (simp only: of_nat_le_iff)
  then have sN: "of_nat (Suc k) * c \<le> of_nat N * c" using cpos by (simp only: mult_right_mono less_imp_le)
  have kD: "of_nat k * D \<le> of_nat N * c"
  proof -
    have "of_nat k * D \<le> 2 ^ 52 * D" using k52 D0 by (rule mult_right_mono)
    also have "\<dots> = of_nat N * c" by (simp add: D_def)
    finally show ?thesis .
  qed
  have "t \<le> of_nat k * c + of_nat k * D" using e by (simp add: abs_le_iff)
  then have "?x \<le> of_nat (Suc k) * c + of_nat k * D" by (simp add: algebra_simps)
  then have xhi: "?x \<le> 2 * (of_nat N * c)" using sN kD by linarith
  have "?x / 2 ^ 53 \<le> 2 * (of_nat N * c) / 2 ^ 53" using xhi by (rule divide_right_mono) simp
  also have "\<dots> = D" by (simp add: D_def)
  finally have e1: "\<bar>t' - ?x\<bar> \<le> D" using err by simp
  have "t' - of_nat (Suc k) * c = (t' - ?x) + (t - of_nat k * c)" by (simp add: algebra_simps)
  then have "\<bar>t' - of_nat (Suc k) * c\<bar> \<le> \<bar>t' - ?x\<bar> + \<bar>t - of_nat k * c\<bar>"
    by (simp only: abs_triangle_ineq)
  also have "\<dots> \<le> D + of_nat k * D" using e1 e by (rule add_mono)
  also have "\<dots> = of_nat (Suc k) * D" by (simp add: algebra_simps)
  finally have "\<bar>t' - of_nat (Suc k) * c\<bar> \<le> of_nat (Suc k) * D" .
  then show ?case using t f unfolding c_def D_def by simp
qed

lemma step_value_exact: "step_value = 1 / 100 + 3 / (25 * 2 ^ 59)"
  by (simp add: step_value_def)

lemma frame_time_tolerance:
  assumes "k \<le> 2 ^ 52"
  shows "close_to (of_nat (k + 1) / 2 ^ 52) (frame_time k) (of_nat k / 100)"
proof -
  define q :: rat where "q = of_nat k"
  have q0: "0 \<le> q" by (simp add: q_def)
  have q52: "q \<le> 2 ^ 52"
  proof -
    have "(of_nat k :: rat) \<le> of_nat (2 ^ 52)" using assms by (simp only: of_nat_le_iff)
    then show ?thesis by (simp add: q_def)
  qed
  from frame_time_drift[OF order_refl assms] obtain t
    where t: "frame_time k = Dbl False t"
      and e: "\<bar>t - q * step_value\<bar> \<le> q * (q * step_value / 2 ^ 52)"
    unfolding q_def by blast
  have "t - q / 100 = (t - q * step_value) + q * (3 / (25 * 2 ^ 59))"
    by (simp add: step_value_exact algebra_simps)
  then have "\<bar>t - q / 100\<bar> \<le> \<bar>t - q * step_value\<bar> + \<bar>q * (3 / (25 * 2 ^ 59))\<bar>"
    by (simp only: abs_triangle_ineq)
  also have "\<dots> \<le> q * (q * step_value / 2 ^ 52) + q * (3 / (25 * 2 ^ 59))"
    using e q0 by simp
  also have "\<dots> = (q / 100) * ((q * (1 + 12 / 2 ^ 59) + 12 / 2 ^ 7) / 2 ^ 52)"
    by (simp add: step_value_exact field_simps)
  also have "\<dots> \<le> (q / 100) * ((q + 1) / 2 ^ 52)"
  proof (rule mult_left_mono)
    have "q * (12 / 2 ^ 59) \<le> 2 ^ 52 * (12 / 2 ^ 59)" using q52 by (rule mult_right_mono) simp
    then have "q * (12 / 2 ^ 59) + 12 / 2 ^ 7 \<le> 1" by simp
    then have "q * (1 + 12 / 2 ^ 59) + 12 / 2 ^ 7 \<le> q + 1" by (simp add: algebra_simps)
    then show "(q * (1 + 12 / 2 ^ 59) + 12 / 2 ^ 7) / 2 ^ 52 \<le> (q + 1) / 2 ^ 52"
      by (rule divide_right_mono) simp
    show "0 \<le> q / 100" using q0 by simp
  qed
  also have "\<dots> = of_nat (k + 1) / 2 ^ 52 * \<bar>of_nat k / 100\<bar>"
    by (simp add: q_def add.commute)
  finally have "\<bar>t - of_nat k / 100\<bar> \<le> of_nat (k + 1) / 2 ^ 52 * \<bar>of_nat k / 100\<bar>"
    by (simp only: q_def)
  then show ?thesis by (simp only: t close_to.simps sval_def if_False)
qed

lemma render_time:
  assumes "sketch_ok s" and "render s = Inr s'"
  shows "time s' = fadd (time s) (lit (1 / 100))"
proof -
  from render_effect[OF assms(1)] assms(2) obtain u
    where eq: "s' = s\<lparr>heap := heap s',
                  time := fadd (time s) (lit (1 / 100)),
                  plane_uniforms := Some (u\<lparr>u_time := fadd (time s) (lit (1 / 100))\<rparr>),
                  trace := trace s @
                    [StatsBegin,
                     ClockAdvanced (fadd (time s) (lit (1 / 100))),
                     TrailAdvanced (trail_values s'),
                     UniformFed (fadd (time s) (lit (1 / 100))),
                     ControlsUpdated,
                     Rendered (fadd (time s) (lit (1 / 100))) (trail_values s'),
                     StatsEnd,
                     FrameRequested]\<rparr>"
    by auto
  show ?thesis by (subst eq) simp
qed

lemma dispatch_time:
  assumes inv: "session_inv w h s" and d: "dispatch e s = Inr s'"
  shows "time s' = (if is_tick e then fadd (time s) (lit (1 / 100)) else time s)"
proof (cases e)
  case (Tick ts)
  then show ?thesis using render_time[of s s'] inv d by (simp add: session_inv_def)
next
  case (Resize w' h')
  then show ?thesis using d by (auto simp: onResize_eq split: if_splits)
next
  case (MouseMove cx cy r)
  have v: "vec_at (heap s) (mousePosition s) \<noteq> None"
    using inv by (simp add: session_inv_def sketch_ok_def trail_okD(6))
  show ?thesis using d MouseMove by (auto simp: on_mousemove_effect[OF v] split: if_splits)
qed

lemma run_time:
  assumes "session_inv w h s" and "time s = frame_time n"
  shows "\<exists>s'. run es s = Inr s' \<and> time s' = frame_time (n + ticks es)"
  using assms
proof (induction es arbitrary: s n)
  case Nil
  then show ?case by (simp add: ticks_def)
next
  case (Cons e es)
  from session_inv_dispatch[OF Cons.prems(1)] obtain s1
    where d: "dispatch e s = Inr s1" and inv1: "session_inv w h s1" by blast
  have t1: "time s1 = frame_time (if is_tick e then Suc n else n)"
    using dispatch_time[OF Cons.prems(1) d] Cons.prems(2) by simp
  from Cons.IH[OF inv1 t1] d show ?case by (auto simp: ticks_def)
qed

lemma session_time:
  "\<exists>s. session w h es = Inr s \<and> time s = frame_time (Suc (ticks es))"
proof -
  let ?s = "resize (addGeometry (initial_fields w h))"
  from constructor_result[of w h] obtain s0
    where r: "render ?s = Inr s0" and c: "constructor w h = Inr (createMouseTracker s0)"
      and inv: "session_inv w h s0"
    by blast
  have ok: "sketch_ok ?s" by (simp add: listener_frame sketch_ok_addGeometry)
  have "time s0 = fadd (time ?s) (lit (1 / 100))" by (rule render_time[OF ok r])
  then have "time (createMouseTracker s0) = frame_time (Suc 0)"
    by (simp add: addGeometry_fields_eq resize_def createMouseTracker_def)
  moreover have "session_inv w h (createMouseTracker s0)"
    using inv by (simp add: session_inv_listeners)
  ultimately show ?thesis using run_time[of w h "createMouseTracker s0" "Suc 0" es] c
    by (simp add: session_def)
qed

section \<open>The pointer outside the rectangle\<close>

lemma at_least_round:
  assumes "0 < a" and "is_double a" and "a \<le> m"
  shows "at_least s a (round_num s m)"
proof (cases "round_mag m")
  case None
  then show ?thesis by (simp add: round_num_def)
next
  case (Some r)
  then have "a \<le> r" by (rule round_mag_lower[OF assms])
  then show ?thesis using Some by (simp add: round_num_def)
qed

lemma at_least_fdiv:
  assumes b: "0 < b" and q: "0 < q" "is_double q" and le: "q * b \<le> a"
  shows "at_least s q (fdiv (Dbl s a) (Dbl False b))"
proof -
  have "q \<le> a / b" using b le by (simp add: pos_le_divide_eq)
  then have "at_least s q (round_num s (a / b))" by (rule at_least_round[OF q])
  then show ?thesis using b by simp
qed

lemma at_least_twice:
  assumes n: "at_least s q n" and q: "0 < q" and d: "is_double (2 * q)"
  shows "at_least s (2 * q) (fmul n (lit 2))"
proof (cases n)
  case NaN
  with n show ?thesis by simp
next
  case (Infinity t)
  with n show ?thesis by (simp add: lit_2)
next
  case (Dbl t m)
  with n have t: "t = s" and m: "q \<le> m" by simp_all
  have "2 * q \<le> m * 2" using m by simp
  moreover have "0 < 2 * q" using q by simp
  ultimately have "at_least s (2 * q) (round_num s (m * 2))" using d by (intro at_least_round)
  then show ?thesis by (simp add: Dbl t lit_2)
qed

lemma at_least_fneg: "at_least s q n \<Longrightarrow> at_least (\<not> s) q (fneg n)"
  by (cases n) auto

lemma at_least_add_away:
  assumes n: "at_least s p n" and p: "0 < p" and d: "is_double (p + 1)"
  shows "at_least s (p + 1) (fadd n (Dbl s 1))"
proof (cases n)
  case NaN
  with n show ?thesis by simp
next
  case (Infinity t)
  with n show ?thesis by simp
next
  case (Dbl t m)
  with n have t: "t = s" and m: "p \<le> m" by simp_all
  have mp: "0 < m" using p m by simp
  have pos: "0 < p + 1" using p by simp
  have le: "p + 1 \<le> m + 1" using m by simp
  have "at_least s (p + 1) (round_num s (m + 1))" by (rule at_least_round[OF pos d le])
  then show ?thesis using mp by (cases s) (simp_all add: Dbl t sval_def add.commute)
qed

lemma at_least_add_towards:
  assumes n: "at_least s p n" and p: "1 < p" and d: "is_double (p - 1)"
  shows "at_least s (p - 1) (fadd n (Dbl (\<not> s) 1))"
proof (cases n)
  case NaN
  with n show ?thesis by simp
next
  case (Infinity t)
  with n show ?thesis by simp
next
  case (Dbl t m)
  with n have t: "t = s" and m: "p \<le> m" by simp_all
  have mp: "1 < m" using p m by simp
  have pos: "0 < p - 1" using p by simp
  have le: "p - 1 \<le> m - 1" using m by simp
  have "at_least s (p - 1) (round_num s (m - 1))" by (rule at_least_round[OF pos d le])
  then show ?thesis using mp by (cases s) (simp_all add: Dbl t sval_def)
qed

lemma flt_above_one:
  assumes "at_least False a n" and "1 < a"
  shows "flt (lit 1) n"
  using assms by (cases n) (auto simp: flt_def lit_1 sval_def)

lemma flt_below_minus_one:
  assumes "at_least True a n" and "1 < a"
  shows "flt n (lit (- 1))"
  using assms by (cases n) (auto simp: flt_def lit_minus_1 sval_def)

lemma is_double_edge:
  "is_double (1 + 1 / 2 ^ 52)" "is_double (2 * (1 + 1 / 2 ^ 52))"
  "is_double (2 * (1 + 1 / 2 ^ 52) - 1)"
  "is_double (1 / 2 ^ 52)" "is_double (2 * (1 / 2 ^ 52))" "is_double (2 * (1 / 2 ^ 52) + 1)"
proof -
  have "round_mag (1 + 1 / 2 ^ 52) = Some (1 + 1 / 2 ^ 52)"
    by (subst round_mag_normal[where e = 0]) (simp_all add: round_eval)
  then show "is_double (1 + 1 / 2 ^ 52)" by (simp add: is_double_def)
  have "round_mag (2 * (1 + 1 / 2 ^ 52)) = Some (2 * (1 + 1 / 2 ^ 52))"
    by (subst round_mag_normal[where e = 1]) (simp_all add: round_eval)
  then show "is_double (2 * (1 + 1 / 2 ^ 52))" by (simp add: is_double_def)
  have "round_mag (2 * (1 + 1 / 2 ^ 52) - 1) = Some (2 * (1 + 1 / 2 ^ 52) - 1)"
    by (subst round_mag_normal[where e = 0]) (simp_all add: round_eval)
  then show "is_double (2 * (1 + 1 / 2 ^ 52) - 1)" by (simp add: is_double_def)
  have "round_mag (1 / 2 ^ 52) = Some (1 / 2 ^ 52)"
    by (subst round_mag_normal[where e = "- 52"]) (simp_all add: round_eval)
  then show "is_double (1 / 2 ^ 52)" by (simp add: is_double_def)
  have "round_mag (2 * (1 / 2 ^ 52)) = Some (2 * (1 / 2 ^ 52))"
    by (subst round_mag_normal[where e = "- 51"]) (simp_all add: round_eval)
  then show "is_double (2 * (1 / 2 ^ 52))" by (simp add: is_double_def)
  have "round_mag (2 * (1 / 2 ^ 52) + 1) = Some (2 * (1 / 2 ^ 52) + 1)"
    by (subst round_mag_normal[where e = 0]) (simp_all add: round_eval)
  then show "is_double (2 * (1 / 2 ^ 52) + 1)" by (simp add: is_double_def)
qed

lemma beyondE:
  assumes "beyond d n"
  obtains a b where "d = Dbl False a" and "n = Dbl False b" and "0 < b"
    and "(1 + 1 / 2 ^ 52) * b \<le> a"
  using assms by (cases d; cases n) (auto simp: mult.commute)

lemma beforeE:
  assumes "before d n"
  obtains a b where "d = Dbl True a" and "n = Dbl False b" and "0 < b"
    and "1 / 2 ^ 52 * b \<le> a"
  using assms by (cases d; cases n) auto

lemma quotient_beyond:
  assumes "beyond d n"
  shows "at_least False (2 * (1 + 1 / 2 ^ 52)) (fmul (fdiv d n) (lit 2))"
proof -
  from assms obtain a b where d: "d = Dbl False a" and n: "n = Dbl False b" and b: "0 < b"
    and le: "(1 + 1 / 2 ^ 52) * b \<le> a" by (rule beyondE)
  have "at_least False (1 + 1 / 2 ^ 52) (fdiv d n)"
    unfolding d n by (rule at_least_fdiv[OF b _ is_double_edge(1) le]) simp
  then show ?thesis by (rule at_least_twice) (simp, rule is_double_edge(2))
qed

lemma quotient_before:
  assumes "before d n"
  shows "at_least True (2 * (1 / 2 ^ 52)) (fmul (fdiv d n) (lit 2))"
proof -
  from assms obtain a b where d: "d = Dbl True a" and n: "n = Dbl False b" and b: "0 < b"
    and le: "1 / 2 ^ 52 * b \<le> a" by (rule beforeE)
  have "at_least True (1 / 2 ^ 52) (fdiv d n)"
    unfolding d n by (rule at_least_fdiv[OF b _ is_double_edge(4) le]) simp
  then show ?thesis by (rule at_least_twice) (simp, rule is_double_edge(5))
qed

lemma fmul_fneg: "fmul (fneg n) (lit 2) = fneg (fmul n (lit 2))"
  by (cases n) (auto simp: lit_2 round_num_def split: option.splits)

lemma fsub_one: "fsub n (lit 1) = fadd n (Dbl True 1)"
  by (simp add: fsub_def lit_1)

lemma pointer_x_beyond:
  assumes "beyond (fsub cx (left r)) (width r)"
  shows "flt (lit 1) (pointer_x cx r)"
proof -
  have "at_least False (2 * (1 + 1 / 2 ^ 52) - 1)
          (fadd (fmul (fdiv (fsub cx (left r)) (width r)) (lit 2)) (Dbl (\<not> False) 1))"
    by (rule at_least_add_towards[OF quotient_beyond[OF assms] _ is_double_edge(3)]) simp
  then have "at_least False (2 * (1 + 1 / 2 ^ 52) - 1) (pointer_x cx r)"
    by (simp only: pointer_x_def fsub_one simp_thms)
  then show ?thesis by (rule flt_above_one) simp
qed

lemma pointer_x_before:
  assumes "before (fsub cx (left r)) (width r)"
  shows "flt (pointer_x cx r) (lit (- 1))"
proof -
  have "at_least True (2 * (1 / 2 ^ 52) + 1)
          (fadd (fmul (fdiv (fsub cx (left r)) (width r)) (lit 2)) (Dbl True 1))"
    by (rule at_least_add_away[OF quotient_before[OF assms] _ is_double_edge(6)]) simp
  then have "at_least True (2 * (1 / 2 ^ 52) + 1) (pointer_x cx r)"
    by (simp only: pointer_x_def fsub_one simp_thms)
  then show ?thesis by (rule flt_below_minus_one) simp
qed

lemma pointer_y_beyond:
  assumes "beyond (fsub cy (top r)) (height r)"
  shows "flt (pointer_y cy r) (lit (- 1))"
proof -
  have "at_least (\<not> False) (2 * (1 + 1 / 2 ^ 52))
          (fneg (fmul (fdiv (fsub cy (top r)) (height r)) (lit 2)))"
    by (rule at_least_fneg[OF quotient_beyond[OF assms]])
  then have "at_least True (2 * (1 + 1 / 2 ^ 52))
          (fmul (fneg (fdiv (fsub cy (top r)) (height r))) (lit 2))"
    by (simp add: fmul_fneg)
  then have "at_least True (2 * (1 + 1 / 2 ^ 52) - 1)
          (fadd (fmul (fneg (fdiv (fsub cy (top r)) (height r))) (lit 2)) (Dbl (\<not> True) 1))"
    by (rule at_least_add_towards[OF _ _ is_double_edge(3)]) simp
  then have "at_least True (2 * (1 + 1 / 2 ^ 52) - 1) (pointer_y cy r)"
    by (simp add: pointer_y_def lit_1)
  then show ?thesis by (rule flt_below_minus_one) simp
qed

lemma pointer_y_before:
  assumes "before (fsub cy (top r)) (height r)"
  shows "flt (lit 1) (pointer_y cy r)"
proof -
  have "at_least (\<not> True) (2 * (1 / 2 ^ 52))
          (fneg (fmul (fdiv (fsub cy (top r)) (height r)) (lit 2)))"
    by (rule at_least_fneg[OF quotient_before[OF assms]])
  then have "at_least False (2 * (1 / 2 ^ 52))
          (fmul (fneg (fdiv (fsub cy (top r)) (height r))) (lit 2))"
    by (simp add: fmul_fneg)
  then have "at_least False (2 * (1 / 2 ^ 52) + 1)
          (fadd (fmul (fneg (fdiv (fsub cy (top r)) (height r))) (lit 2)) (Dbl False 1))"
    by (rule at_least_add_away[OF _ _ is_double_edge(6)]) simp
  then have "at_least False (2 * (1 / 2 ^ 52) + 1) (pointer_y cy r)"
    by (simp add: pointer_y_def lit_1)
  then show ?thesis by (rule flt_above_one) simp
qed

lemma flt_not_in_unit:
  "flt (lit 1) n \<Longrightarrow> \<not> in_unit n" "flt n (lit (- 1)) \<Longrightarrow> \<not> in_unit n"
  by (simp_all add: flt_def in_unit_def)

lemma trail_head_after_move:
  assumes ok: "trail_ok s"
  shows "\<exists>s' s''. on_mousemove cx cy r s = Inr s' \<and>
           vec_at (heap s') (mousePosition s') = Some (pointer_x cx r, pointer_y cy r) \<and>
           updatePointerTrail s' = Inr s'' \<and>
           trail_values s'' ! 0 = Some (pointer_x cx r, pointer_y cy r)"
proof -
  have v: "vec_at (heap s) (mousePosition s) \<noteq> None" by (rule trail_okD(6)[OF ok])
  let ?s' = "s\<lparr>heap := (heap s)[mousePosition s := Vector2 (pointer_x cx r) (pointer_y cy r)]\<rparr>"
  have m: "on_mousemove cx cy r s = Inr ?s'" by (rule on_mousemove_effect[OF v])
  from on_mousemove_pointer[OF v, of cx cy r] m
  have p: "vec_at (heap ?s') (mousePosition ?s') = Some (pointer_x cx r, pointer_y cy r)"
    by auto
  have ok': "trail_ok ?s'" by (rule trail_ok_vec_update(1)[OF ok v])
  from updatePointerTrail_effect[OF ok'] obtain s''
    where u: "updatePointerTrail ?s' = Inr s''"
      and vals: "trail_values s'' = vec_at (heap ?s') (mousePosition ?s') # butlast (trail_values ?s')"
    by blast
  have "trail_values s'' ! 0 = Some (pointer_x cx r, pointer_y cy r)"
    using vals p by simp
  with m p u show ?thesis by blast
qed

lemma round_mag_more:
  "round_mag 50 = Some 50" "round_mag 100 = Some 100" "round_mag 150 = Some 150"
  "round_mag 700 = Some 700" "round_mag 716 = Some 716"
  "round_mag 1000 = Some 1000" "round_mag 1008 = Some 1008"
proof -
  show "round_mag 50 = Some 50"
    by (subst round_mag_normal[where e = 5]) (simp_all add: round_eval)
  show "round_mag 100 = Some 100"
    by (subst round_mag_normal[where e = 6]) (simp_all add: round_eval)
  show "round_mag 150 = Some 150"
    by (subst round_mag_normal[where e = 7]) (simp_all add: round_eval)
  show "round_mag 700 = Some 700"
    by (subst round_mag_normal[where e = 9]) (simp_all add: round_eval)
  show "round_mag 716 = Some 716"
    by (subst round_mag_normal[where e = 9]) (simp_all add: round_eval)
  show "round_mag 1000 = Some 1000"
    by (subst round_mag_normal[where e = 9]) (simp_all add: round_eval)
  show "round_mag 1008 = Some 1008"
    by (subst round_mag_normal[where e = 9]) (simp_all add: round_eval)
qed

lemma lit_more:
  "lit 50 = Dbl False 50" "lit 100 = Dbl False 100" "lit 150 = Dbl False 150"
  "lit 716 = Dbl False 716" "lit 1008 = Dbl False 1008"
  by (simp_all add: lit_def round_num_def round_mag_more)

lemma example_outside:
  "beyond (fsub (lit 1008) (left example_rect)) (width example_rect)"
  "beyond (fsub (lit 716) (top example_rect)) (height example_rect)"
  "before (fsub (lit 0) (left example_rect)) (width example_rect)"
  "before (fsub (lit 0) (top example_rect)) (height example_rect)"
  by (simp_all add: example_rect_def lit_small lit_more lit_0 fsub_Dbl sval_def round_num_def
      round_mag_small round_mag_more)

lemma pointer_y_square: "pointer_y (lit 50) square_rect = Dbl False 0"
  by (simp add: pointer_y_def square_rect_def lit_more lit_0 lit_1 lit_2 fsub_Dbl sval_def
      round_num_def round_mag_more round_mag_half round_mag_1)

lemma outside_square: "outside (lit 150) (lit 50) square_rect"
  by (simp add: outside_def square_rect_def lit_more lit_0 sval_def round_num_def round_mag_more)

lemma round_mag_hair: "round_mag (1 / 2 ^ 49) = Some (1 / 2 ^ 49)"
  by (subst round_mag_normal[where e = "- 49"]) (simp_all add: round_eval)

lemma round_mag_hair_quotient:
  "round_mag (1 / 2 ^ 49 / 800) = Some (5764607523034235 / 2 ^ 111)"
  by (subst round_mag_normal[where e = "- 59"]) (simp_all add: round_eval)

lemma round_mag_hair_twice:
  "round_mag (5764607523034235 / 2 ^ 111 * 2) = Some (5764607523034235 / 2 ^ 110)"
  by (subst round_mag_normal[where e = "- 58"]) (simp_all add: round_eval)

lemma round_mag_hair_sum:
  "round_mag (5764607523034235 / 2 ^ 110 + 1) = Some 1"
  by (subst round_mag_normal[where e = 0]) (simp_all add: round_eval)

lemma pointer_x_shifted: "pointer_x (lit 8) shifted_rect = Dbl True 1"
proof -
  have a: "fsub (lit 8) (left shifted_rect) = Dbl True (1 / 2 ^ 49)"
    using round_mag_hair
    by (simp add: shifted_rect_def lit_small fsub_Dbl sval_def round_num_def)
  have b: "fdiv (Dbl True (1 / 2 ^ 49)) (width shifted_rect) =
            Dbl True (5764607523034235 / 2 ^ 111)"
    using round_mag_hair_quotient
    by (simp add: shifted_rect_def lit_small round_num_def)
  have c: "fmul (Dbl True (5764607523034235 / 2 ^ 111)) (lit 2) =
            Dbl True (5764607523034235 / 2 ^ 110)"
    using round_mag_hair_twice by (simp add: lit_2 round_num_def)
  have d: "fsub (Dbl True (5764607523034235 / 2 ^ 110)) (lit 1) = Dbl True 1"
    using round_mag_hair_sum by (simp add: lit_1 fsub_Dbl sval_def round_num_def)
  show ?thesis by (simp only: pointer_x_def a b c d)
qed

lemma outside_shifted: "outside (lit 8) (lit 50) shifted_rect"
  by (simp add: outside_def shifted_rect_def lit_small sval_def)

lemma is_number_shifted: "is_number (left shifted_rect)"
proof -
  have "round_mag (8 + 1 / 2 ^ 49) = Some (8 + 1 / 2 ^ 49)"
    by (subst round_mag_normal[where e = 3]) (simp_all add: round_eval)
  then show ?thesis by (simp add: shifted_rect_def is_double_def)
qed

section \<open>The pointer near the far corner and the centre\<close>

text \<open>Powers of two are binary64 values, and rounding below one of them errs by at most
  half the spacing there.\<close>

lemma is_double_pow2:
  assumes "- 1022 \<le> e" and "e \<le> 1023"
  shows "is_double (2 powi e)"
proof -
  let ?r = "(2::rat) powi e"
  have lo: "2 powi e \<le> ?r" by simp
  have hi: "?r < 2 powi (e + 1)" by (simp add: power_int_strict_increasing)
  have u: "ulp ?r = 2 powi (e - 52)" by (rule ulp_normal[OF lo hi assms(1)])
  have "e = 52 + (e - 52)" by simp
  then have "?r = 2 powi (52 + (e - 52))" by (rule arg_cong)
  then have "?r = 2 powi 52 * 2 powi (e - 52)" by (simp only: pow2_add)
  then have a: "?r = of_int (2 ^ 52) * 2 powi (e - 52)" by simp
  have m: "?r = of_int (2 ^ 52) * ulp ?r" by (subst u) (rule a)
  have h: "?r < 2 powi 1024" by (rule power_int_strict_increasing) (use assms(2) in simp_all)
  have p: "0 < ?r" by simp
  show ?thesis by (rule is_double_multiple[OF p m h])
qed

lemma round_mag_abs_error:
  assumes m: "0 < m" and hi: "m < 2 powi (e + 1)" and e: "- 1022 \<le> e"
    and r: "round_mag m = Some r"
  shows "\<bar>r - m\<bar> \<le> 2 powi (e - 53)"
proof -
  have "2 powi (ilog2 m) \<le> m" by (rule ilog2_bounds(1)[OF m])
  then have "(2::rat) powi (ilog2 m) < 2 powi (e + 1)" using hi by simp
  then have "ilog2 m < e + 1" by (rule pow2_less_cancel)
  then have "expo m \<le> e" using e by (simp add: expo_def)
  then have "expo m - 52 \<le> e - 52" by simp
  then have "ulp m \<le> 2 powi (e - 52)" unfolding ulp_def by (rule pow2_mono)
  then have "ulp m / 2 \<le> 2 powi (e - 52) / 2" by (simp add: divide_right_mono)
  also have "(2::rat) powi (e - 52) / 2 = 2 powi (e - 52 - 1)"
    by (simp only: pow2_diff) simp
  also have "e - 52 - 1 = e - 53" by simp
  finally have "ulp m / 2 \<le> 2 powi (e - 53)" .
  with round_mag_error[OF m r] show ?thesis by simp
qed

lemma round_mag_below_two:
  assumes m: "0 < m" and hi: "m < 2"
  shows "\<exists>r. round_mag m = Some r \<and> \<bar>r - m\<bar> \<le> 1 / 2 ^ 53 \<and> r \<le> 2"
proof -
  have d: "is_double 2" using round_mag_2 by (simp add: is_double_def)
  from round_mag_upper[OF m _ d] hi obtain r where r: "round_mag m = Some r" "r \<le> 2"
    by auto
  have "m < 2 powi (0 + 1)" using hi by simp
  from round_mag_abs_error[OF m this _ r(1)] have "\<bar>r - m\<bar> \<le> 2 powi (- 53)" by simp
  then have "\<bar>r - m\<bar> \<le> 1 / 2 ^ 53" by (simp add: power_int_minus field_simps)
  with r show ?thesis by blast
qed

lemma round_mag_below_four:
  assumes m: "0 < m" and hi: "m < 4"
  shows "\<exists>r. round_mag m = Some r \<and> \<bar>r - m\<bar> \<le> 1 / 2 ^ 52 \<and> r \<le> 4"
proof -
  have "is_double (2 powi 2)" by (rule is_double_pow2) simp_all
  then have d: "is_double 4" by simp
  from round_mag_upper[OF m _ d] hi obtain r where r: "round_mag m = Some r" "r \<le> 4"
    by auto
  have "m < 2 powi (1 + 1)" using hi by simp
  from round_mag_abs_error[OF m this _ r(1)] have "\<bar>r - m\<bar> \<le> 2 powi (- 52)" by simp
  then have "\<bar>r - m\<bar> \<le> 1 / 2 ^ 52" by (simp add: power_int_minus field_simps)
  with r show ?thesis by blast
qed

lemma is_double_2_1023: "is_double (2 ^ 1023)"
proof -
  have "is_double (2 powi 1023)" by (rule is_double_pow2) simp_all
  then show ?thesis by simp
qed

text \<open>
  The three roundings that lead to twice the quotient: of the offset, of its quotient by
  the side, and of the product by two. \<open>t\<close> is the fraction of the side at which the
  pointer is aimed and \<open>\<delta>\<close> the fraction of the side by which it may miss.
\<close>

lemma offset_rounds:
  assumes w: "1 / 2 ^ 1020 \<le> w" "w \<le> 2 ^ 1022"
    and t: "1 / 2 \<le> t" "t \<le> 1" and d: "\<delta> \<le> 1 / 4"
    and v: "\<bar>v - t * w\<bar> \<le> \<delta> * w"
  shows "\<exists>r. round_mag v = Some r \<and> 0 < v \<and> \<bar>r / w - t\<bar> \<le> \<delta> + 2 / 2 ^ 53"
proof -
  have wpos: "0 < w" using w(1) by (rule less_le_trans[rotated]) simp
  have tw: "w / 2 \<le> t * w" using t(1) wpos by (simp add: field_simps)
  have tw': "t * w \<le> w" using t(2) wpos by simp
  have dw: "\<delta> * w \<le> w / 4" using d wpos by (simp add: field_simps)
  have lo: "w / 4 \<le> v" using v tw dw by linarith
  have hi: "v \<le> 2 * w" using v tw' dw wpos by linarith
  have vpos: "0 < v" using lo wpos by simp
  have "1 / 2 ^ 1020 / 4 \<le> v" using lo w(1) by simp
  moreover have "(2::rat) powi (- 1022) = 1 / 2 ^ 1020 / 4" by (simp add: power_int_minus)
  ultimately have n: "2 powi (- 1022) \<le> v" by (simp only:)
  have "v \<le> 2 ^ 1023" using hi w(2) by simp
  from round_mag_upper[OF vpos this is_double_2_1023] obtain r
    where r: "round_mag v = Some r" by blast
  have "\<bar>r - v\<bar> \<le> v / 2 ^ 53" by (rule round_mag_relative_error[OF n r])
  also have "\<dots> \<le> 2 * w / 2 ^ 53" using hi by (simp add: divide_right_mono)
  finally have e: "\<bar>r - v\<bar> \<le> 2 / 2 ^ 53 * w" by simp
  have "\<bar>r - t * w\<bar> \<le> \<bar>r - v\<bar> + \<bar>v - t * w\<bar>" by simp
  also have "\<dots> \<le> 2 / 2 ^ 53 * w + \<delta> * w" using e v by (rule add_mono)
  finally have "\<bar>r - t * w\<bar> \<le> (\<delta> + 2 / 2 ^ 53) * w" by (simp add: algebra_simps)
  then have "\<bar>r - t * w\<bar> / w \<le> \<delta> + 2 / 2 ^ 53" using wpos by (simp add: pos_divide_le_eq)
  moreover have "\<bar>r - t * w\<bar> / w = \<bar>r / w - t\<bar>"
  proof -
    have "r / w - t = (r - t * w) / w" using wpos by (simp add: field_simps)
    then show ?thesis using wpos by simp
  qed
  ultimately have "\<bar>r / w - t\<bar> \<le> \<delta> + 2 / 2 ^ 53" by simp
  with r vpos show ?thesis by blast
qed

lemma quotient_rounds:
  assumes t: "1 / 2 \<le> t" "t \<le> 1" and d: "\<delta> \<le> 1 / 4"
    and a: "\<bar>a - t\<bar> \<le> \<delta> + 2 / 2 ^ 53"
  shows "\<exists>q p. round_mag a = Some q \<and> round_mag (q * 2) = Some p \<and>
           \<bar>p - 2 * t\<bar> \<le> 2 * \<delta> + 8 / 2 ^ 53"
proof -
  have apos: "0 < a" using a t(1) d by (simp add: abs_le_iff)
  have ahi: "a < 2" using a t(2) d by (simp add: abs_le_iff)
  from round_mag_below_two[OF apos ahi] obtain q
    where q: "round_mag a = Some q" "\<bar>q - a\<bar> \<le> 1 / 2 ^ 53" by blast
  have "\<bar>q - t\<bar> \<le> \<bar>q - a\<bar> + \<bar>a - t\<bar>" by simp
  also have "\<dots> \<le> 1 / 2 ^ 53 + (\<delta> + 2 / 2 ^ 53)" using q(2) a by (rule add_mono)
  finally have qt: "\<bar>q - t\<bar> \<le> \<delta> + 3 / 2 ^ 53" by simp
  have qpos: "0 < q * 2" using qt t(1) d by (simp add: abs_le_iff)
  have qhi: "q * 2 < 4" using qt t(2) d by (simp add: abs_le_iff)
  from round_mag_below_four[OF qpos qhi] obtain p
    where p: "round_mag (q * 2) = Some p" "\<bar>p - q * 2\<bar> \<le> 1 / 2 ^ 52" by blast
  have "\<bar>q * 2 - 2 * t\<bar> = 2 * \<bar>q - t\<bar>" by (simp add: abs_if)
  then have q2: "\<bar>q * 2 - 2 * t\<bar> \<le> 2 * (\<delta> + 3 / 2 ^ 53)" using qt by simp
  have "\<bar>p - 2 * t\<bar> \<le> \<bar>p - q * 2\<bar> + \<bar>q * 2 - 2 * t\<bar>" by simp
  also have "\<dots> \<le> 1 / 2 ^ 52 + 2 * (\<delta> + 3 / 2 ^ 53)" using p(2) q2 by (rule add_mono)
  finally have "\<bar>p - 2 * t\<bar> \<le> 2 * \<delta> + 8 / 2 ^ 53" by simp
  with q(1) p(1) show ?thesis by blast
qed

lemma sval_abs: "\<bar>sval (x < 0) m - x\<bar> = \<bar>m - \<bar>x\<bar>\<bar>"
  by (auto simp: sval_def abs_if)

text \<open>The last operation: one is taken away from, or added to, twice the quotient.\<close>

lemma last_step:
  assumes "0 \<le> p" and "p < 3"
  shows "\<exists>s m. fadd (Dbl False p) (Dbl True 1) = Dbl s m \<and>
           \<bar>sval s m - (p - 1)\<bar> \<le> 1 / 2 ^ 53"
    and "\<exists>s m. fadd (Dbl True p) (Dbl False 1) = Dbl s m \<and>
           \<bar>sval s m - (1 - p)\<bar> \<le> 1 / 2 ^ 53"
proof -
  have r: "\<exists>m. round_mag \<bar>p - 1\<bar> = Some m \<and> \<bar>m - \<bar>p - 1\<bar>\<bar> \<le> 1 / 2 ^ 53" if "p \<noteq> 1"
  proof -
    have "0 < \<bar>p - 1\<bar>" using that by simp
    moreover have "\<bar>p - 1\<bar> < 2" using assms by (simp add: abs_less_iff)
    ultimately show ?thesis using round_mag_below_two by blast
  qed
  show "\<exists>s m. fadd (Dbl False p) (Dbl True 1) = Dbl s m \<and>
           \<bar>sval s m - (p - 1)\<bar> \<le> 1 / 2 ^ 53"
  proof (cases "p = 1")
    case True
    then show ?thesis by (auto simp: sval_def)
  next
    case False
    from r[OF False] obtain m
      where m: "round_mag \<bar>p - 1\<bar> = Some m" "\<bar>m - \<bar>p - 1\<bar>\<bar> \<le> 1 / 2 ^ 53" by blast
    have "fadd (Dbl False p) (Dbl True 1) = Dbl (p - 1 < 0) m"
      using False m(1) by (simp add: sval_def round_num_def)
    moreover have "\<bar>sval (p - 1 < 0) m - (p - 1)\<bar> \<le> 1 / 2 ^ 53"
      using m(2) by (simp only: sval_abs)
    ultimately show ?thesis by blast
  qed
  show "\<exists>s m. fadd (Dbl True p) (Dbl False 1) = Dbl s m \<and>
           \<bar>sval s m - (1 - p)\<bar> \<le> 1 / 2 ^ 53"
  proof (cases "p = 1")
    case True
    then show ?thesis by (auto simp: sval_def)
  next
    case False
    from r[OF False] obtain m
      where m: "round_mag \<bar>p - 1\<bar> = Some m" "\<bar>m - \<bar>p - 1\<bar>\<bar> \<le> 1 / 2 ^ 53" by blast
    have e: "\<bar>1 - p\<bar> = \<bar>p - 1\<bar>" by simp
    have "fadd (Dbl True p) (Dbl False 1) = Dbl (1 - p < 0) m"
      using False m(1) by (simp add: sval_def round_num_def e)
    moreover have "\<bar>sval (1 - p < 0) m - (1 - p)\<bar> \<le> 1 / 2 ^ 53"
      using m(2) by (simp only: sval_abs e)
    ultimately show ?thesis by blast
  qed
qed

lemma normal_sideE:
  assumes "normal_side n"
  obtains w where "n = Dbl False w" and "1 / 2 ^ 1020 \<le> w" and "w \<le> 2 ^ 1022"
  using assms by (cases n) auto

lemma near_pointE:
  assumes "near_point t d c l (Dbl False w)"
  obtains sc a sl b where "c = Dbl sc a" and "l = Dbl sl b"
    and "\<bar>sval sc a - sval sl b - t * w\<bar> \<le> d * w"
proof -
  from assms obtain sc a where c: "c = Dbl sc a" by (cases c) auto
  from assms obtain sl b where l: "l = Dbl sl b" by (cases l) (auto simp: c)
  from assms have "\<bar>sval sc a - (sval sl b + t * w)\<bar> \<le> d * w"
    by (simp add: c l sval_def)
  then have "\<bar>sval sc a - sval sl b - t * w\<bar> \<le> d * w" by (simp add: algebra_simps)
  with c l show ?thesis by (rule that)
qed

text \<open>
  The quotient of the handler, doubled: the offset from the near side, divided by the
  side, times two.
\<close>

lemma doubled_quotient_near:
  assumes n: "normal_side side" and p: "near_point t d c l side"
    and t: "1 / 2 \<le> t" "t \<le> 1" and d: "d \<le> 1 / 4"
  shows "\<exists>p. fmul (fdiv (fsub c l) side) (lit 2) = Dbl False p \<and>
           \<bar>p - 2 * t\<bar> \<le> 2 * d + 8 / 2 ^ 53"
proof -
  from n obtain w where s: "side = Dbl False w" and w: "1 / 2 ^ 1020 \<le> w" "w \<le> 2 ^ 1022"
    by (rule normal_sideE)
  have wpos: "0 < w" using w(1) by (rule less_le_trans[rotated]) simp
  from p obtain sc a sl b where c: "c = Dbl sc a" and l: "l = Dbl sl b"
    and v: "\<bar>sval sc a - sval sl b - t * w\<bar> \<le> d * w"
    unfolding s by (rule near_pointE)
  let ?v = "sval sc a - sval sl b"
  from offset_rounds[OF w t d v] obtain r
    where r: "round_mag ?v = Some r" "0 < ?v" "\<bar>r / w - t\<bar> \<le> d + 2 / 2 ^ 53" by blast
  from quotient_rounds[OF t d r(3)] obtain q p
    where q: "round_mag (r / w) = Some q" and p: "round_mag (q * 2) = Some p"
      and e: "\<bar>p - 2 * t\<bar> \<le> 2 * d + 8 / 2 ^ 53" by blast
  have neg: "sval (\<not> sl) b = - sval sl b" by (simp add: sval_def)
  have "fsub c l = Dbl False r"
    using r(1,2) by (simp add: c l fsub_Dbl neg round_num_def)
  then have "fdiv (fsub c l) side = Dbl False q"
    using wpos q by (simp add: s round_num_def)
  then have "fmul (fdiv (fsub c l) side) (lit 2) = Dbl False p"
    using p by (simp add: lit_2 round_num_def)
  with e show ?thesis by blast
qed

lemma pointer_x_near:
  assumes n: "normal_side (width r)" and p: "near_point t d cx (left r) (width r)"
    and t: "1 / 2 \<le> t" "t \<le> 1" and d: "d \<le> 1 / 4"
  shows "near_value (2 * d + 1 / 2 ^ 49) (pointer_x cx r) (2 * t - 1)"
proof -
  from doubled_quotient_near[OF n p t d] obtain p
    where m: "fmul (fdiv (fsub cx (left r)) (width r)) (lit 2) = Dbl False p"
      and e: "\<bar>p - 2 * t\<bar> \<le> 2 * d + 8 / 2 ^ 53" by blast
  have "0 \<le> p" using e t(1) d by (simp add: abs_le_iff)
  moreover have "p < 3" using e t(2) d by (simp add: abs_le_iff)
  ultimately obtain s x where x: "fadd (Dbl False p) (Dbl True 1) = Dbl s x"
    and ex: "\<bar>sval s x - (p - 1)\<bar> \<le> 1 / 2 ^ 53" using last_step(1) by blast
  have px: "pointer_x cx r = Dbl s x" by (simp only: pointer_x_def fsub_one m x)
  have "\<bar>sval s x - (2 * t - 1)\<bar> \<le> \<bar>sval s x - (p - 1)\<bar> + \<bar>p - 2 * t\<bar>" by simp
  also have "\<dots> \<le> 1 / 2 ^ 53 + (2 * d + 8 / 2 ^ 53)" using ex e by (rule add_mono)
  also have "\<dots> \<le> 2 * d + 1 / 2 ^ 49" by simp
  finally show ?thesis by (simp only: px near_value.simps)
qed

lemma pointer_y_near:
  assumes n: "normal_side (height r)" and p: "near_point t d cy (top r) (height r)"
    and t: "1 / 2 \<le> t" "t \<le> 1" and d: "d \<le> 1 / 4"
  shows "near_value (2 * d + 1 / 2 ^ 49) (pointer_y cy r) (1 - 2 * t)"
proof -
  from doubled_quotient_near[OF n p t d] obtain p
    where m: "fmul (fdiv (fsub cy (top r)) (height r)) (lit 2) = Dbl False p"
      and e: "\<bar>p - 2 * t\<bar> \<le> 2 * d + 8 / 2 ^ 53" by blast
  have m': "fmul (fneg (fdiv (fsub cy (top r)) (height r))) (lit 2) = Dbl True p"
    by (simp add: fmul_fneg m)
  have "0 \<le> p" using e t(1) d by (simp add: abs_le_iff)
  moreover have "p < 3" using e t(2) d by (simp add: abs_le_iff)
  ultimately obtain s y where y: "fadd (Dbl True p) (Dbl False 1) = Dbl s y"
    and ey: "\<bar>sval s y - (1 - p)\<bar> \<le> 1 / 2 ^ 53" using last_step(2) by blast
  have py: "pointer_y cy r = Dbl s y" by (simp only: pointer_y_def m' lit_1 y)
  have "\<bar>sval s y - (1 - 2 * t)\<bar> \<le> \<bar>sval s y - (1 - p)\<bar> + \<bar>p - 2 * t\<bar>" by simp
  also have "\<dots> \<le> 1 / 2 ^ 53 + (2 * d + 8 / 2 ^ 53)" using ey e by (rule add_mono)
  also have "\<dots> \<le> 2 * d + 1 / 2 ^ 49" by simp
  finally show ?thesis by (simp only: py near_value.simps)
qed

section \<open>The corner and the centre as binary64 has them\<close>

lemma fadd_error:
  assumes w: "1 / 2 ^ 1020 \<le> w" and f: "fadd (Dbl s a) (Dbl t b) = Dbl sc c"
  shows "\<bar>sval sc c - (sval s a + sval t b)\<bar> \<le> (\<bar>sval s a + sval t b\<bar> + w) / 2 ^ 53"
proof -
  let ?v = "sval s a + sval t b"
  have wpos: "0 < w" using w by (rule less_le_trans[rotated]) simp
  show ?thesis
  proof (cases "?v = 0")
    case True
    with f have "c = 0" by simp
    then show ?thesis using True wpos by (simp add: sval_def)
  next
    case False
    with f have r: "round_num (?v < 0) \<bar>?v\<bar> = Dbl sc c" by (simp add: Let_def)
    then obtain m: "round_mag \<bar>?v\<bar> = Some c" and sc: "sc = (?v < 0)"
      by (cases "round_mag \<bar>?v\<bar>") (simp_all add: round_num_def)
    have vpos: "0 < \<bar>?v\<bar>" using False by simp
    have e: "\<bar>sval sc c - ?v\<bar> = \<bar>c - \<bar>?v\<bar>\<bar>" unfolding sc by (rule sval_abs)
    have "\<bar>c - \<bar>?v\<bar>\<bar> \<le> (\<bar>?v\<bar> + w) / 2 ^ 53"
    proof (cases "2 powi (- 1022) \<le> \<bar>?v\<bar>")
      case True
      have "\<bar>c - \<bar>?v\<bar>\<bar> \<le> \<bar>?v\<bar> / 2 ^ 53" by (rule round_mag_relative_error[OF True m])
      also have "\<dots> \<le> (\<bar>?v\<bar> + w) / 2 ^ 53" using wpos by (simp add: divide_right_mono)
      finally show ?thesis .
    next
      case False
      then have "\<bar>?v\<bar> < 2 powi (- 1022 + 1)"
        by (simp add: not_le less_trans[OF _ power_int_strict_increasing])
      from round_mag_abs_error[OF vpos this _ m]
      have "\<bar>c - \<bar>?v\<bar>\<bar> \<le> 2 powi (- 1075)" by simp
      also have "(2::rat) powi (- 1075) \<le> 1 / 2 ^ 1020 / 2 ^ 53"
        by (simp add: power_int_minus field_simps)
      also have "\<dots> \<le> w / 2 ^ 53" using w by (simp add: divide_right_mono)
      also have "\<dots> \<le> (\<bar>?v\<bar> + w) / 2 ^ 53" by (simp add: divide_right_mono)
      finally show ?thesis .
    qed
    with e show ?thesis by simp
  qed
qed

text \<open>
  The far corner of a rectangle as binary64 has it, \<^verbatim>\<open>left + width\<close>, misses the
  exact corner by a fraction of the side that grows with the distance \<open>k\<close> of the
  corner from the origin, counted in sides.
\<close>

lemma corner_rounds_near:
  assumes n: "normal_side (Dbl False w)"
    and f: "is_finite (fadd (Dbl sl b) (Dbl False w))"
    and k: "\<bar>sval sl b + w\<bar> \<le> k * w"
  shows "near_point 1 ((k + 1) / 2 ^ 53) (fadd (Dbl sl b) (Dbl False w)) (Dbl sl b)
           (Dbl False w)"
proof -
  from n have w: "1 / 2 ^ 1020 \<le> w" by simp
  from f obtain sc c where c: "fadd (Dbl sl b) (Dbl False w) = Dbl sc c" by (rule is_finiteE)
  have "\<bar>sval sc c - (sval sl b + sval False w)\<bar> \<le> (\<bar>sval sl b + sval False w\<bar> + w) / 2 ^ 53"
    by (rule fadd_error[OF w c])
  then have "\<bar>sval sc c - (sval sl b + w)\<bar> \<le> (\<bar>sval sl b + w\<bar> + w) / 2 ^ 53"
    by (simp add: sval_def)
  also have "\<dots> \<le> (k * w + w) / 2 ^ 53" using k by (simp add: divide_right_mono)
  also have "\<dots> = (k + 1) / 2 ^ 53 * w" by (simp add: algebra_simps)
  finally show ?thesis by (simp only: c near_point.simps) (simp add: sval_def)
qed

lemma half_side_rounds:
  assumes n: "normal_side (Dbl False w)"
  shows "\<exists>h. fdiv (Dbl False w) (lit 2) = Dbl False h \<and> \<bar>h - w / 2\<bar> \<le> w / 2 ^ 54"
proof -
  from n have w: "1 / 2 ^ 1020 \<le> w" "w \<le> 2 ^ 1022" by simp_all
  have wpos: "0 < w" using w(1) by (rule less_le_trans[rotated]) simp
  have hpos: "0 < w / 2" using wpos by simp
  have "w / 2 \<le> 2 ^ 1023" using w(2) by simp
  from round_mag_upper[OF hpos this is_double_2_1023] obtain h
    where h: "round_mag (w / 2) = Some h" by blast
  have "1 / 2 ^ 1020 / 2 \<le> w / 2" using w(1) by simp
  moreover have "(2::rat) powi (- 1022) \<le> 1 / 2 ^ 1020 / 2" by (simp add: power_int_minus)
  ultimately have "2 powi (- 1022) \<le> w / 2" by (rule order_trans[rotated])
  from round_mag_relative_error[OF this h] have "\<bar>h - w / 2\<bar> \<le> w / 2 ^ 54" by simp
  moreover have "fdiv (Dbl False w) (lit 2) = Dbl False h"
    using h by (simp add: lit_2 round_num_def)
  ultimately show ?thesis by blast
qed

text \<open>The same for the centre as binary64 has it, \<^verbatim>\<open>left + width / 2\<close>.\<close>

lemma centre_rounds_near:
  assumes n: "normal_side (Dbl False w)"
    and f: "is_finite (fadd (Dbl sl b) (fdiv (Dbl False w) (lit 2)))"
    and k: "\<bar>sval sl b + w / 2\<bar> \<le> k * w"
  shows "near_point (1 / 2) ((k + 2) / 2 ^ 53) (fadd (Dbl sl b) (fdiv (Dbl False w) (lit 2)))
           (Dbl sl b) (Dbl False w)"
proof -
  from n have w: "1 / 2 ^ 1020 \<le> w" by simp
  have wpos: "0 < w" using w by (rule less_le_trans[rotated]) simp
  from half_side_rounds[OF n] obtain h
    where h: "fdiv (Dbl False w) (lit 2) = Dbl False h" and eh: "\<bar>h - w / 2\<bar> \<le> w / 2 ^ 54"
    by blast
  from f obtain sc c where c: "fadd (Dbl sl b) (Dbl False h) = Dbl sc c"
    unfolding h by (rule is_finiteE)
  let ?L = "sval sl b"
  have "\<bar>sval sc c - (?L + sval False h)\<bar> \<le> (\<bar>?L + sval False h\<bar> + w) / 2 ^ 53"
    by (rule fadd_error[OF w c])
  then have e: "\<bar>sval sc c - (?L + h)\<bar> \<le> (\<bar>?L + h\<bar> + w) / 2 ^ 53" by (simp add: sval_def)
  have "\<bar>?L + h\<bar> \<le> \<bar>?L + w / 2\<bar> + \<bar>h - w / 2\<bar>" by simp
  also have "\<dots> \<le> k * w + w / 2 ^ 54" using k eh by (rule add_mono)
  finally have "(\<bar>?L + h\<bar> + w) / 2 ^ 53 \<le> (k * w + w / 2 ^ 54 + w) / 2 ^ 53"
    by (simp add: divide_right_mono)
  with e have e': "\<bar>sval sc c - (?L + h)\<bar> \<le> (k * w + w / 2 ^ 54 + w) / 2 ^ 53" by simp
  have "\<bar>sval sc c - (?L + 1 / 2 * w)\<bar> \<le> \<bar>sval sc c - (?L + h)\<bar> + \<bar>h - w / 2\<bar>" by simp
  also have "\<dots> \<le> (k * w + w / 2 ^ 54 + w) / 2 ^ 53 + w / 2 ^ 54"
    using e' eh by (rule add_mono)
  also have "\<dots> \<le> (k + 2) / 2 ^ 53 * w" using wpos by (simp add: field_simps)
  finally show ?thesis by (simp only: h c near_point.simps) (simp add: sval_def)
qed

section \<open>A canvas whose sides are not binary fractions\<close>

lemma round_mag_fraction:
  "round_mag (43 / 4) = Some (43 / 4)"
  "round_mag (41 / 2) = Some (41 / 2)"
  "round_mag (3070 / 3) = Some (9001335192726187 / 2 ^ 43)"
  "round_mag (1727 / 3) = Some (5063617549784405 / 2 ^ 43)"
proof -
  show "round_mag (43 / 4) = Some (43 / 4)"
    by (subst round_mag_normal[where e = 3]) (simp_all add: round_eval)
  show "round_mag (41 / 2) = Some (41 / 2)"
    by (subst round_mag_normal[where e = 4]) (simp_all add: round_eval)
  show "round_mag (3070 / 3) = Some (9001335192726187 / 2 ^ 43)"
    by (subst round_mag_normal[where e = 9]) (simp_all add: round_eval)
  show "round_mag (1727 / 3) = Some (5063617549784405 / 2 ^ 43)"
    by (subst round_mag_normal[where e = 9]) (simp_all add: round_eval)
qed

lemma fraction_rect_sides:
  "left fraction_rect = Dbl False (43 / 4)"
  "top fraction_rect = Dbl False (41 / 2)"
  "width fraction_rect = Dbl False (9001335192726187 / 2 ^ 43)"
  "height fraction_rect = Dbl False (5063617549784405 / 2 ^ 43)"
  by (simp_all add: fraction_rect_def lit_def round_num_def round_mag_fraction)

lemma round_mag_fraction_corner:
  "round_mag (43 / 4 + 9001335192726187 / 2 ^ 43) = Some (2273973298178731 / 2 ^ 41)"
  "round_mag (41 / 2 + 5063617549784405 / 2 ^ 43) = Some (5243937456739669 / 2 ^ 43)"
proof -
  show "round_mag (43 / 4 + 9001335192726187 / 2 ^ 43) = Some (2273973298178731 / 2 ^ 41)"
    by (subst round_mag_normal[where e = 10]) (simp_all add: round_eval)
  show "round_mag (41 / 2 + 5063617549784405 / 2 ^ 43) = Some (5243937456739669 / 2 ^ 43)"
    by (subst round_mag_normal[where e = 9]) (simp_all add: round_eval)
qed

lemma fraction_rect_corner:
  "fadd (left fraction_rect) (width fraction_rect) = Dbl False (2273973298178731 / 2 ^ 41)"
  "fadd (top fraction_rect) (height fraction_rect) = Dbl False (5243937456739669 / 2 ^ 43)"
  using round_mag_fraction_corner
  by (simp_all add: fraction_rect_sides sval_def round_num_def)

lemma round_mag_fraction_half:
  "round_mag (9001335192726187 / 2 ^ 43 / 2) = Some (9001335192726187 / 2 ^ 44)"
  "round_mag (5063617549784405 / 2 ^ 43 / 2) = Some (5063617549784405 / 2 ^ 44)"
proof -
  show "round_mag (9001335192726187 / 2 ^ 43 / 2) = Some (9001335192726187 / 2 ^ 44)"
    by (subst round_mag_normal[where e = 8]) (simp_all add: round_eval)
  show "round_mag (5063617549784405 / 2 ^ 43 / 2) = Some (5063617549784405 / 2 ^ 44)"
    by (subst round_mag_normal[where e = 8]) (simp_all add: round_eval)
qed

lemma fraction_rect_half:
  "fdiv (width fraction_rect) (lit 2) = Dbl False (9001335192726187 / 2 ^ 44)"
  "fdiv (height fraction_rect) (lit 2) = Dbl False (5063617549784405 / 2 ^ 44)"
  using round_mag_fraction_half
  by (simp_all add: fraction_rect_sides lit_2 round_num_def)

lemma round_mag_fraction_centre:
  "round_mag (43 / 4 + 9001335192726187 / 2 ^ 44) = Some (2297612798175915 / 2 ^ 42)"
  "round_mag (41 / 2 + 5063617549784405 / 2 ^ 44) = Some (5424257363694933 / 2 ^ 44)"
proof -
  show "round_mag (43 / 4 + 9001335192726187 / 2 ^ 44) = Some (2297612798175915 / 2 ^ 42)"
    by (subst round_mag_normal[where e = 9]) (simp_all add: round_eval)
  show "round_mag (41 / 2 + 5063617549784405 / 2 ^ 44) = Some (5424257363694933 / 2 ^ 44)"
    by (subst round_mag_normal[where e = 8]) (simp_all add: round_eval)
qed

lemma fraction_rect_centre:
  "fadd (left fraction_rect) (fdiv (width fraction_rect) (lit 2)) =
     Dbl False (2297612798175915 / 2 ^ 42)"
  "fadd (top fraction_rect) (fdiv (height fraction_rect) (lit 2)) =
     Dbl False (5424257363694933 / 2 ^ 44)"
  using round_mag_fraction_centre
  by (simp_all add: fraction_rect_half) (simp_all add: fraction_rect_sides sval_def round_num_def)

lemma fraction_rect_normal:
  "normal_side (width fraction_rect)" "normal_side (height fraction_rect)"
  by (simp_all add: fraction_rect_sides)

lemma fraction_rect_near:
  "near_point 1 (1 / 2 ^ 52) (fadd (left fraction_rect) (width fraction_rect))
     (left fraction_rect) (width fraction_rect)"
  "near_point 1 (1 / 2 ^ 52) (fadd (top fraction_rect) (height fraction_rect))
     (top fraction_rect) (height fraction_rect)"
  "near_point (1 / 2) (1 / 2 ^ 52) (fadd (left fraction_rect) (fdiv (width fraction_rect) (lit 2)))
     (left fraction_rect) (width fraction_rect)"
  "near_point (1 / 2) (1 / 2 ^ 52) (fadd (top fraction_rect) (fdiv (height fraction_rect) (lit 2)))
     (top fraction_rect) (height fraction_rect)"
  by (simp_all add: fraction_rect_corner fraction_rect_centre)
     (simp_all add: fraction_rect_sides sval_def)

section \<open>A unit square far from the origin\<close>

lemma far_rect_sides:
  "left far_rect = Dbl False (2 ^ 60)" "top far_rect = Dbl False 0"
  "width far_rect = Dbl False 1" "height far_rect = Dbl False 1"
  by (simp_all add: far_rect_def lit_0 lit_1)

lemma is_double_far:
  "is_double (2 ^ 60)" "is_double (2 ^ 60 + 256)"
proof -
  have "round_mag (2 ^ 60) = Some (2 ^ 60)"
    by (subst round_mag_normal[where e = 60]) (simp_all add: round_eval)
  then show "is_double (2 ^ 60)" by (simp add: is_double_def)
  have "round_mag (2 ^ 60 + 256) = Some (2 ^ 60 + 256)"
    by (subst round_mag_normal[where e = 60]) (simp_all add: round_eval)
  then show "is_double (2 ^ 60 + 256)" by (simp add: is_double_def)
qed

lemma round_mag_far_corner: "round_mag (2 ^ 60 + 1) = Some (2 ^ 60)"
  by (subst round_mag_normal[where e = 60]) (simp_all add: round_eval)

lemma far_rect_corner: "fadd (left far_rect) (width far_rect) = Dbl False (2 ^ 60)"
  using round_mag_far_corner by (simp add: far_rect_sides sval_def round_num_def)

lemma pointer_x_far_rect_below: "pointer_x (Dbl False (2 ^ 60)) far_rect = Dbl True 1"
  by (simp add: pointer_x_def far_rect_sides fsub_Dbl sval_def round_num_0 lit_1 lit_2
      round_num_1)

lemma round_mag_far:
  "round_mag 256 = Some 256" "round_mag 512 = Some 512" "round_mag 511 = Some 511"
proof -
  show "round_mag 256 = Some 256"
    by (subst round_mag_normal[where e = 8]) (simp_all add: round_eval)
  show "round_mag 512 = Some 512"
    by (subst round_mag_normal[where e = 9]) (simp_all add: round_eval)
  show "round_mag 511 = Some 511"
    by (subst round_mag_normal[where e = 8]) (simp_all add: round_eval)
qed

lemma pointer_x_far_rect_above: "pointer_x (Dbl False (2 ^ 60 + 256)) far_rect = Dbl False 511"
  by (simp add: pointer_x_def far_rect_sides fsub_Dbl sval_def round_num_def lit_1 lit_2
      round_mag_far)

lemma far_rect_proper: "proper_rect far_rect" "normal_side (width far_rect)"
  by (simp_all add: proper_rect_def far_rect_sides)

section \<open>The values at the corner and the centre of the fractional canvas\<close>

lemma round_mag_fraction_x:
  "round_mag (2273973298178731 / 2 ^ 41 - 43 / 4) = Some (2250333798181547 / 2 ^ 41)"
  "round_mag (2250333798181547 / 2 ^ 41 / (9001335192726187 / 2 ^ 43)) =
     Some (4503599627370497 / 2 ^ 52)"
  "round_mag (4503599627370497 / 2 ^ 52 * 2) = Some (4503599627370497 / 2 ^ 51)"
  "round_mag (4503599627370497 / 2 ^ 51 - 1) = Some (1 + 1 / 2 ^ 51)"
proof -
  show "round_mag (2273973298178731 / 2 ^ 41 - 43 / 4) = Some (2250333798181547 / 2 ^ 41)"
    by (subst round_mag_normal[where e = 9]) (simp_all add: round_eval)
  show "round_mag (2250333798181547 / 2 ^ 41 / (9001335192726187 / 2 ^ 43)) =
     Some (4503599627370497 / 2 ^ 52)"
    by (subst round_mag_normal[where e = 0]) (simp_all add: round_eval)
  show "round_mag (4503599627370497 / 2 ^ 52 * 2) = Some (4503599627370497 / 2 ^ 51)"
    by (subst round_mag_normal[where e = 1]) (simp_all add: round_eval)
  show "round_mag (4503599627370497 / 2 ^ 51 - 1) = Some (1 + 1 / 2 ^ 51)"
    by (subst round_mag_normal[where e = 0]) (simp_all add: round_eval)
qed

lemma pointer_x_fraction_corner:
  "pointer_x (fadd (left fraction_rect) (width fraction_rect)) fraction_rect =
     Dbl False (1 + 1 / 2 ^ 51)"
  using round_mag_fraction_x
  by (simp add: pointer_x_def fraction_rect_corner)
     (simp add: fraction_rect_sides fsub_Dbl sval_def round_num_def lit_1 lit_2)

lemma round_mag_fraction_x_centre:
  "round_mag (2297612798175915 / 2 ^ 42 - 43 / 4) = Some (2250333798181547 / 2 ^ 42)"
  "round_mag (2250333798181547 / 2 ^ 42 / (9001335192726187 / 2 ^ 43)) =
     Some (4503599627370497 / 2 ^ 53)"
  "round_mag (4503599627370497 / 2 ^ 53 * 2) = Some (4503599627370497 / 2 ^ 52)"
  "round_mag (4503599627370497 / 2 ^ 52 - 1) = Some (1 / 2 ^ 52)"
proof -
  show "round_mag (2297612798175915 / 2 ^ 42 - 43 / 4) = Some (2250333798181547 / 2 ^ 42)"
    by (subst round_mag_normal[where e = 8]) (simp_all add: round_eval)
  show "round_mag (2250333798181547 / 2 ^ 42 / (9001335192726187 / 2 ^ 43)) =
     Some (4503599627370497 / 2 ^ 53)"
    by (subst round_mag_normal[where e = "- 1"]) (simp_all add: round_eval)
  show "round_mag (4503599627370497 / 2 ^ 53 * 2) = Some (4503599627370497 / 2 ^ 52)"
    by (subst round_mag_normal[where e = 0]) (simp_all add: round_eval)
  show "round_mag (4503599627370497 / 2 ^ 52 - 1) = Some (1 / 2 ^ 52)"
    by (subst round_mag_normal[where e = "- 52"]) (simp_all add: round_eval)
qed

lemma pointer_x_fraction_centre:
  "pointer_x (fadd (left fraction_rect) (fdiv (width fraction_rect) (lit 2))) fraction_rect =
     Dbl False (1 / 2 ^ 52)"
  using round_mag_fraction_x_centre
  by (simp add: pointer_x_def fraction_rect_centre)
     (simp add: fraction_rect_sides fsub_Dbl sval_def round_num_def lit_1 lit_2)

section \<open>The listeners\<close>

lemma render_listeners:
  assumes "sketch_ok s" and "render s = Inr s'"
  shows "resize_listener s' = resize_listener s" "mousemove_listener s' = mousemove_listener s"
proof -
  from render_effect[OF assms(1)] assms(2) obtain u
    where eq: "s' = s\<lparr>heap := heap s',
                  time := fadd (time s) (lit (1 / 100)),
                  plane_uniforms := Some (u\<lparr>u_time := fadd (time s) (lit (1 / 100))\<rparr>),
                  trace := trace s @
                    [StatsBegin,
                     ClockAdvanced (fadd (time s) (lit (1 / 100))),
                     TrailAdvanced (trail_values s'),
                     UniformFed (fadd (time s) (lit (1 / 100))),
                     ControlsUpdated,
                     Rendered (fadd (time s) (lit (1 / 100))) (trail_values s'),
                     StatsEnd,
                     FrameRequested]\<rparr>"
    by auto
  show "resize_listener s' = resize_listener s" by (subst eq) simp
  show "mousemove_listener s' = mousemove_listener s" by (subst eq) simp
qed

lemma dispatch_listeners:
  assumes inv: "session_inv w h s" and d: "dispatch e s = Inr s'"
  shows "resize_listener s' = resize_listener s \<and> mousemove_listener s' = mousemove_listener s"
proof (cases e)
  case (Tick ts)
  then show ?thesis using render_listeners[of s s'] inv d by (simp add: session_inv_def)
next
  case (Resize w' h')
  then show ?thesis using d by (auto simp: onResize_eq split: if_splits)
next
  case (MouseMove cx cy r)
  have v: "vec_at (heap s) (mousePosition s) \<noteq> None"
    using inv by (simp add: session_inv_def sketch_ok_def trail_okD(6))
  show ?thesis using d MouseMove by (auto simp: on_mousemove_effect[OF v] split: if_splits)
qed

lemma run_listeners:
  assumes "session_inv w h s" and "resize_listener s" and "mousemove_listener s"
  shows "\<exists>s'. run es s = Inr s' \<and> session_inv w h s' \<and>
           resize_listener s' \<and> mousemove_listener s'"
  using assms
proof (induction es arbitrary: s)
  case Nil
  then show ?case by simp
next
  case (Cons e es)
  from session_inv_dispatch[OF Cons.prems(1)] obtain s1
    where d: "dispatch e s = Inr s1" and inv1: "session_inv w h s1" by blast
  from dispatch_listeners[OF Cons.prems(1) d] Cons.prems(2,3)
  have "resize_listener s1" "mousemove_listener s1" by simp_all
  from Cons.IH[OF inv1 this] d show ?case by simp
qed

lemma session_listeners:
  "\<exists>s. session w h es = Inr s \<and> session_inv w h s \<and>
       resize_listener s \<and> mousemove_listener s"
proof -
  from constructor_result[of w h] obtain s0
    where c: "constructor w h = Inr (createMouseTracker s0)"
      and inv: "session_inv w h s0" and rl: "resize_listener s0"
    by blast
  have "session_inv w h (createMouseTracker s0)"
    using inv by (simp add: session_inv_listeners)
  moreover have "resize_listener (createMouseTracker s0)"
    "mousemove_listener (createMouseTracker s0)"
    using rl by (simp_all add: createMouseTracker_def)
  ultimately show ?thesis
    using run_listeners[of w h "createMouseTracker s0" es] c by (simp add: session_def)
qed

lemma run_append:
  "run (es @ es') s = (case run es s of Inl x \<Rightarrow> Inl x | Inr s' \<Rightarrow> run es' s')"
  by (induction es arbitrary: s) (auto split: sum.splits)

lemma session_snoc:
  "session w h (es @ [e]) =
     (case session w h es of Inl x \<Rightarrow> Inl x | Inr s \<Rightarrow> dispatch e s)"
  by (auto simp: session_def run_append split: sum.splits)

text \<open>A resize or a mouse move at the end of a session reaches its listener.\<close>

lemma session_then_resize:
  "\<exists>s. session w h es = Inr s \<and> session_inv w h s \<and>
       session w h (es @ [Resize w' h']) = Inr (onResize w' h' s)"
  using session_listeners[of w h es] by (auto simp: session_snoc)

lemma session_then_mousemove:
  "\<exists>s. session w h es = Inr s \<and> session_inv w h s \<and>
       session w h (es @ [MouseMove cx cy r]) = on_mousemove cx cy r s"
  using session_listeners[of w h es] by (auto simp: session_snoc)

section \<open>The claims of the specification\<close>

text \<open>
  Claim C1. One call of \<^verbatim>\<open>updatePointerTrail\<close> on a well-formed sketch succeeds;
  afterwards slot 0 of the trail holds the current pointer value and every slot \<open>i\<close>
  from 1 to \<open>N - 1\<close> holds what slot \<open>i - 1\<close> held before, so that the old last
  slot is dropped and the length stays \<open>N\<close>.
\<close>

theorem updatePointerTrail_shifts:
  assumes "trail_ok s"
  shows "\<exists>s'. updatePointerTrail s = Inr s' \<and>
           length (trail_values s') = trailLength s \<and>
           trail_values s' ! 0 = vec_at (heap s) (mousePosition s) \<and>
           (\<forall>i. 1 \<le> i \<and> i < trailLength s \<longrightarrow>
              trail_values s' ! i = trail_values s ! (i - 1)) \<and>
           trail_values s' = vec_at (heap s) (mousePosition s) # butlast (trail_values s)"
proof -
  note d = trail_okD[OF assms]
  from updatePointerTrail_effect[OF assms] obtain s'
    where up: "updatePointerTrail s = Inr s'"
      and vals: "trail_values s' = vec_at (heap s) (mousePosition s) # butlast (trail_values s)"
    by blast
  have len: "length (trail_values s) = trailLength s"
    using d(2) by (simp add: trail_values_def)
  have l': "length (trail_values s') = trailLength s"
    using vals len d(2,3) by simp
  have nth: "trail_values s' ! i = trail_values s ! (i - 1)"
    if "1 \<le> i" "i < trailLength s" for i
  proof -
    from that(1) obtain j where j: "i = Suc j" by (cases i) simp_all
    then have "j < length (butlast (trail_values s))" using that(2) len by simp
    then show ?thesis using vals j by (simp add: nth_butlast)
  qed
  show ?thesis using up l' vals nth by auto
qed

text \<open>The sketch of the concrete session is well formed, and the shift applies to it.\<close>

theorem updatePointerTrail_shifts_witness:
  "trail_ok example_sketch \<and>
   (\<exists>s'. updatePointerTrail example_sketch = Inr s' \<and>
      length (trail_values s') = trailLength example_sketch \<and>
      trail_values s' ! 0 = vec_at (heap example_sketch) (mousePosition example_sketch) \<and>
      (\<forall>i. 1 \<le> i \<and> i < trailLength example_sketch \<longrightarrow>
         trail_values s' ! i = trail_values example_sketch ! (i - 1)) \<and>
      trail_values s' =
        vec_at (heap example_sketch) (mousePosition example_sketch) #
        butlast (trail_values example_sketch))"
  using example_trail_ok updatePointerTrail_shifts[OF example_trail_ok] by (rule conjI)

text \<open>
  Claim C2. After a render tick the clock and the trail have advanced, the
  \<^verbatim>\<open>time\<close> uniform of the plane material equals \<^verbatim>\<open>this.time\<close>, and the
  \<^verbatim>\<open>uPointerTrail\<close> uniform is the array \<^verbatim>\<open>this.pointerTrail\<close> itself, so
  that the shader reads the current trail. The time is copied by the tick; the trail is
  shared by reference since \<^verbatim>\<open>addGeometry\<close>.
\<close>

theorem render_feeds_uniforms:
  assumes "sketch_ok s"
  shows "\<exists>s' u'. render s = Inr s' \<and> plane_uniforms s' = Some u' \<and>
           time s' = fadd (time s) (lit (1 / 100)) \<and>
           trail_values s' = vec_at (heap s) (mousePosition s) # butlast (trail_values s) \<and>
           u_time u' = time s' \<and>
           uPointerTrail u' = pointerTrail s' \<and>
           uniform_trail_values s' = trail_values s'"
proof -
  from render_effect[OF assms] obtain s' u
    where r: "render s = Inr s'" and u: "plane_uniforms s = Some u"
      and eq: "s' = s\<lparr>heap := heap s',
                  time := fadd (time s) (lit (1 / 100)),
                  plane_uniforms := Some (u\<lparr>u_time := fadd (time s) (lit (1 / 100))\<rparr>),
                  trace := trace s @
                    [StatsBegin,
                     ClockAdvanced (fadd (time s) (lit (1 / 100))),
                     TrailAdvanced (trail_values s'),
                     UniformFed (fadd (time s) (lit (1 / 100))),
                     ControlsUpdated,
                     Rendered (fadd (time s) (lit (1 / 100))) (trail_values s'),
                     StatsEnd,
                     FrameRequested]\<rparr>"
      and vals: "trail_values s' = vec_at (heap s) (mousePosition s) # butlast (trail_values s)"
      and utv: "uniform_trail_values s' = trail_values s'"
    by blast
  let ?u' = "u\<lparr>u_time := fadd (time s) (lit (1 / 100))\<rparr>"
  have f: "plane_uniforms s' = Some ?u'" "time s' = fadd (time s) (lit (1 / 100))"
    "pointerTrail s' = pointerTrail s"
    by (subst eq, simp)+
  have "uPointerTrail ?u' = pointerTrail s'"
    using assms u f by (simp add: sketch_ok_def)
  with r f vals utv show ?thesis by auto
qed

text \<open>The same at the sketch of the concrete session.\<close>

theorem render_feeds_uniforms_witness:
  "sketch_ok example_sketch \<and>
   (\<exists>s' u'. render example_sketch = Inr s' \<and> plane_uniforms s' = Some u' \<and>
      time s' = fadd (time example_sketch) (lit (1 / 100)) \<and>
      trail_values s' =
        vec_at (heap example_sketch) (mousePosition example_sketch) #
        butlast (trail_values example_sketch) \<and>
      u_time u' = time s' \<and>
      uPointerTrail u' = pointerTrail s' \<and>
      uniform_trail_values s' = trail_values s')"
  using example_sketch_ok render_feeds_uniforms[OF example_sketch_ok] by (rule conjI)

text \<open>
  Claim C6. A render tick does, in this order: advance the clock, advance the trail,
  write the time uniform, update the controls, draw once, ask for the next frame. The
  statistics panel is told before the first and after the draw. The draw sees the
  advanced time and trail.
\<close>

theorem render_step_order:
  assumes "sketch_ok s"
  shows "\<exists>s'. render s = Inr s' \<and>
           trace s' = trace s @
             [StatsBegin,
              ClockAdvanced (time s'),
              TrailAdvanced (trail_values s'),
              UniformFed (time s'),
              ControlsUpdated,
              Rendered (time s') (trail_values s'),
              StatsEnd,
              FrameRequested] \<and>
           time s' = fadd (time s) (lit (1 / 100)) \<and>
           trail_values s' = vec_at (heap s) (mousePosition s) # butlast (trail_values s)"
proof -
  from render_effect[OF assms] obtain s' u
    where r: "render s = Inr s'"
      and eq: "s' = s\<lparr>heap := heap s',
                  time := fadd (time s) (lit (1 / 100)),
                  plane_uniforms := Some (u\<lparr>u_time := fadd (time s) (lit (1 / 100))\<rparr>),
                  trace := trace s @
                    [StatsBegin,
                     ClockAdvanced (fadd (time s) (lit (1 / 100))),
                     TrailAdvanced (trail_values s'),
                     UniformFed (fadd (time s) (lit (1 / 100))),
                     ControlsUpdated,
                     Rendered (fadd (time s) (lit (1 / 100))) (trail_values s'),
                     StatsEnd,
                     FrameRequested]\<rparr>"
      and vals: "trail_values s' = vec_at (heap s) (mousePosition s) # butlast (trail_values s)"
    by blast
  have t: "time s' = fadd (time s) (lit (1 / 100))" by (subst eq) simp
  have "trace s' = trace s @
             [StatsBegin,
              ClockAdvanced (fadd (time s) (lit (1 / 100))),
              TrailAdvanced (trail_values s'),
              UniformFed (fadd (time s) (lit (1 / 100))),
              ControlsUpdated,
              Rendered (fadd (time s) (lit (1 / 100))) (trail_values s'),
              StatsEnd,
              FrameRequested]"
    by (subst eq) simp
  with r t vals show ?thesis by auto
qed

text \<open>The trace of one more tick of the concrete session.\<close>

theorem render_step_order_witness:
  "sketch_ok example_sketch \<and>
   (\<exists>s'. render example_sketch = Inr s' \<and>
      trace s' = trace example_sketch @
        [StatsBegin,
         ClockAdvanced (time s'),
         TrailAdvanced (trail_values s'),
         UniformFed (time s'),
         ControlsUpdated,
         Rendered (time s') (trail_values s'),
         StatsEnd,
         FrameRequested] \<and>
      time s' = fadd (time example_sketch) (lit (1 / 100)) \<and>
      trail_values s' =
        vec_at (heap example_sketch) (mousePosition example_sketch) #
        butlast (trail_values example_sketch))"
  using example_sketch_ok render_step_order[OF example_sketch_ok] by (rule conjI)

text \<open>
  Claim C8. \<^verbatim>\<open>onResize\<close> sets the aspect of the camera to the quotient of the new
  width and height and the size of the renderer to the new width and height; the time,
  the heap, and with it every slot of the trail, stay as they were. A resize event at
  the end of any session is handled so.
\<close>

theorem onResize_frame:
  "camera_aspect (onResize w h s) = fdiv w h \<and>
   renderer_size (onResize w h s) = (w, h) \<and>
   device_width (onResize w h s) = w \<and>
   device_height (onResize w h s) = h \<and>
   time (onResize w h s) = time s \<and>
   heap (onResize w h s) = heap s \<and>
   trail_values (onResize w h s) = trail_values s \<and>
   (\<exists>s1 s2. session w0 h0 es = Inr s1 \<and> session w0 h0 (es @ [Resize w h]) = Inr s2 \<and>
      camera_aspect s2 = fdiv w h \<and> renderer_size s2 = (w, h) \<and>
      time s2 = time s1 \<and> trail_values s2 = trail_values s1)"
proof -
  have a: "camera_aspect (onResize w h s) = fdiv w h \<and>
     renderer_size (onResize w h s) = (w, h) \<and>
     device_width (onResize w h s) = w \<and>
     device_height (onResize w h s) = h \<and>
     time (onResize w h s) = time s \<and>
     heap (onResize w h s) = heap s \<and>
     trail_values (onResize w h s) = trail_values s" for s
    by (simp add: trail_values_onResize) (simp add: onResize_eq)
  from session_then_resize[of w0 h0 es w h] obtain s1
    where "session w0 h0 es = Inr s1"
      and "session w0 h0 (es @ [Resize w h]) = Inr (onResize w h s1)"
    by blast
  with a[of s1] have "\<exists>s1 s2. session w0 h0 es = Inr s1 \<and>
      session w0 h0 (es @ [Resize w h]) = Inr s2 \<and>
      camera_aspect s2 = fdiv w h \<and> renderer_size s2 = (w, h) \<and>
      time s2 = time s1 \<and> trail_values s2 = trail_values s1"
    by blast
  with a[of s] show ?thesis by blast
qed

text \<open>A resize to 1024 by 768 of the concrete session.\<close>

theorem onResize_frame_witness:
  "camera_aspect (onResize (lit 1024) (lit 768) example_sketch) = fdiv (lit 1024) (lit 768) \<and>
   renderer_size (onResize (lit 1024) (lit 768) example_sketch) = (lit 1024, lit 768) \<and>
   device_width (onResize (lit 1024) (lit 768) example_sketch) = lit 1024 \<and>
   device_height (onResize (lit 1024) (lit 768) example_sketch) = lit 768 \<and>
   time (onResize (lit 1024) (lit 768) example_sketch) = time example_sketch \<and>
   heap (onResize (lit 1024) (lit 768) example_sketch) = heap example_sketch \<and>
   trail_values (onResize (lit 1024) (lit 768) example_sketch) = trail_values example_sketch \<and>
   (\<exists>s1 s2. session (lit 800) (lit 600) example_events = Inr s1 \<and>
      session (lit 800) (lit 600) (example_events @ [Resize (lit 1024) (lit 768)]) = Inr s2 \<and>
      camera_aspect s2 = fdiv (lit 1024) (lit 768) \<and>
      renderer_size s2 = (lit 1024, lit 768) \<and>
      time s2 = time s1 \<and> trail_values s2 = trail_values s1)"
  by (rule onResize_frame)

text \<open>
  Claim C4. The trail is created with 15 slots, and after any events and any number of
  further calls of \<^verbatim>\<open>updatePointerTrail\<close> it still has 15 slots and
  \<^verbatim>\<open>trailLength\<close> is still 15.
\<close>

theorem trail_length_constant:
  "length (trail_values (initial_fields w h)) = 15 \<and>
   (\<exists>s. session w h es = Inr s \<and> trailLength s = 15 \<and> length (trail_values s) = 15 \<and>
      (\<forall>n. \<exists>s'. advances n s = Inr s' \<and>
         trailLength s' = 15 \<and> length (trail_values s') = 15))"
proof -
  have a: "length (trail_values (initial_fields w h)) = 15"
    using at_rest_fields[of w h] by (simp add: at_rest_def) (simp add: fields_eq)
  from session_inv_session obtain s
    where se: "session w h es = Inr s" and inv: "session_inv w h s" by blast
  from inv have ok: "trail_ok s" and n: "trailLength s = 15"
    by (simp_all add: session_inv_def sketch_ok_def)
  have l: "length (trail_values s) = 15"
    using trail_okD(2)[OF ok] n by (simp add: trail_values_def)
  have "\<exists>s'. advances k s = Inr s' \<and> trailLength s' = 15 \<and> length (trail_values s') = 15"
    for k
    using advances_trail_ok[OF ok, of k] n l by auto
  with a se n l show ?thesis by blast
qed

text \<open>The length of the trail along the concrete session.\<close>

theorem trail_length_constant_witness:
  "length (trail_values (initial_fields (lit 800) (lit 600))) = 15 \<and>
   (\<exists>s. session (lit 800) (lit 600) example_events = Inr s \<and>
      trailLength s = 15 \<and> length (trail_values s) = 15 \<and>
      (\<forall>n. \<exists>s'. advances n s = Inr s' \<and>
         trailLength s' = 15 \<and> length (trail_values s') = 15))"
  by (rule trail_length_constant)

text \<open>
  Claim C9. The constructor sets the pointer and each of the 15 slots to (0, 0); as long
  as no mouse move has been handled, ticks, resizes and any number of calls of
  \<^verbatim>\<open>updatePointerTrail\<close> leave every slot at (0, 0).
\<close>

theorem trail_rests_at_origin:
  "vec_at (heap (initial_fields w h)) (mousePosition (initial_fields w h)) = Some (lit 0, lit 0) \<and>
   trail_values (initial_fields w h) = replicate 15 (Some (lit 0, lit 0)) \<and>
   (\<forall>n. \<exists>s'. advances n (initial_fields w h) = Inr s' \<and>
      trail_values s' = replicate 15 (Some (lit 0, lit 0))) \<and>
   (list_all (\<lambda>e. \<not> is_mousemove e) es \<longrightarrow>
      (\<exists>s. session w h es = Inr s \<and>
         vec_at (heap s) (mousePosition s) = Some (lit 0, lit 0) \<and>
         trail_values s = replicate 15 (Some (lit 0, lit 0)) \<and>
         (\<forall>n. \<exists>s'. advances n s = Inr s' \<and>
            trail_values s' = replicate 15 (Some (lit 0, lit 0)))))"
proof -
  have n0: "trailLength (initial_fields w h) = 15" by (simp add: fields_eq)
  have r0: "at_rest (initial_fields w h)" by (rule at_rest_fields)
  have a: "vec_at (heap (initial_fields w h)) (mousePosition (initial_fields w h)) = Some (lit 0, lit 0)"
    and b: "trail_values (initial_fields w h) = replicate 15 (Some (lit 0, lit 0))"
    using r0 n0 by (simp_all add: at_rest_def)
  have adv: "\<exists>s'. advances k s = Inr s' \<and>
      trail_values s' = replicate 15 (Some (lit 0, lit 0))"
    if ok: "trail_ok s" and rest: "at_rest s" and n: "trailLength s = 15" for s k
  proof -
    from at_rest_advances[OF ok rest, of k] obtain s'
      where x: "advances k s = Inr s'" "trail_ok s'" "at_rest s'" by blast
    from advances_trail_ok[OF ok, of k] x(1) have "trailLength s' = 15" using n by simp
    with x show ?thesis by (simp add: at_rest_def)
  qed
  have c: "\<forall>k. \<exists>s'. advances k (initial_fields w h) = Inr s' \<and>
      trail_values s' = replicate 15 (Some (lit 0, lit 0))"
    using adv[OF trail_ok_fields r0 n0] by blast
  have d: "\<exists>s. session w h es = Inr s \<and>
         vec_at (heap s) (mousePosition s) = Some (lit 0, lit 0) \<and>
         trail_values s = replicate 15 (Some (lit 0, lit 0)) \<and>
         (\<forall>n. \<exists>s'. advances n s = Inr s' \<and>
            trail_values s' = replicate 15 (Some (lit 0, lit 0)))"
    if "list_all (\<lambda>e. \<not> is_mousemove e) es"
  proof -
    from at_rest_session[OF that] obtain s
      where se: "session w h es = Inr s" and inv: "session_inv w h s" and rest: "at_rest s"
      by blast
    from inv have ok: "trail_ok s" and n: "trailLength s = 15"
      by (simp_all add: session_inv_def sketch_ok_def)
    from adv[OF ok rest n] se rest n show ?thesis by (auto simp: at_rest_def)
  qed
  from a b c d show ?thesis by blast
qed

text \<open>Three frames and a resize without any mouse move.\<close>

theorem trail_rests_at_origin_witness:
  "list_all (\<lambda>e. \<not> is_mousemove e) [Tick (lit 16), Resize (lit 1024) (lit 768), Tick (lit 33), Tick (lit 50)] \<and>
   (\<exists>s. session (lit 800) (lit 600) [Tick (lit 16), Resize (lit 1024) (lit 768), Tick (lit 33), Tick (lit 50)] = Inr s \<and>
      vec_at (heap s) (mousePosition s) = Some (lit 0, lit 0) \<and>
      trail_values s = replicate 15 (Some (lit 0, lit 0)) \<and>
      (\<forall>n. \<exists>s'. advances n s = Inr s' \<and>
         trail_values s' = replicate 15 (Some (lit 0, lit 0))))"
  using trail_rests_at_origin[of "lit 800" "lit 600" "[Tick (lit 16), Resize (lit 1024) (lit 768), Tick (lit 33), Tick (lit 50)]"]
  by simp

text \<open>
  Claim C10. \<^verbatim>\<open>addGeometry\<close> sets \<^verbatim>\<open>uResolution\<close> to the width and height
  of \<^verbatim>\<open>device\<close> at that moment. \<^verbatim>\<open>onResize\<close> changes the aspect of the camera
  and the size of the renderer and leaves the uniform alone, and so does every other
  event: after any events the uniform still holds the dimensions of construction time.
\<close>

theorem uResolution_written_once:
  "resolution_value (addGeometry s0) = Some (device_width s0, device_height s0) \<and>
   resolution_value (onResize w' h' s) = resolution_value s \<and>
   camera_aspect (onResize w' h' s) = fdiv w' h' \<and>
   renderer_size (onResize w' h' s) = (w', h') \<and>
   (\<exists>s1. session w h es = Inr s1 \<and> resolution_value s1 = Some (w, h)) \<and>
   (\<exists>s2. session w h (es @ [Resize w' h']) = Inr s2 \<and>
      device_width s2 = w' \<and> device_height s2 = h' \<and>
      camera_aspect s2 = fdiv w' h' \<and> renderer_size s2 = (w', h') \<and>
      resolution_value s2 = Some (w, h))"
proof -
  have a: "resolution_value (addGeometry s0) = Some (device_width s0, device_height s0)"
    by (simp add: resolution_value_def addGeometry_def alloc_def vec_at_def lookup_def)
  have b: "resolution_value (onResize w' h' s) = resolution_value s \<and>
     camera_aspect (onResize w' h' s) = fdiv w' h' \<and>
     renderer_size (onResize w' h' s) = (w', h') \<and>
     device_width (onResize w' h' s) = w' \<and> device_height (onResize w' h' s) = h'" for s
    by (simp add: resolution_value_onResize) (simp add: onResize_eq)
  from session_then_resize[of w h es w' h'] obtain s1
    where s1: "session w h es = Inr s1" "session_inv w h s1"
      and s2: "session w h (es @ [Resize w' h']) = Inr (onResize w' h' s1)"
    by blast
  have c: "resolution_value s1 = Some (w, h)" using s1(2) by (simp add: session_inv_def)
  have "\<exists>s2. session w h (es @ [Resize w' h']) = Inr s2 \<and>
      device_width s2 = w' \<and> device_height s2 = h' \<and>
      camera_aspect s2 = fdiv w' h' \<and> renderer_size s2 = (w', h') \<and>
      resolution_value s2 = Some (w, h)"
    using s2 b[of s1] c by simp
  with a b[of s] s1(1) c show ?thesis by blast
qed

text \<open>The uniform along the concrete session, which resizes the window to 1024 by 768.\<close>

theorem uResolution_written_once_witness:
  "resolution_value (addGeometry (initial_fields (lit 800) (lit 600))) =
     Some (device_width (initial_fields (lit 800) (lit 600)), device_height (initial_fields (lit 800) (lit 600))) \<and>
   resolution_value (onResize (lit 1024) (lit 768) example_sketch) =
     resolution_value example_sketch \<and>
   camera_aspect (onResize (lit 1024) (lit 768) example_sketch) = fdiv (lit 1024) (lit 768) \<and>
   renderer_size (onResize (lit 1024) (lit 768) example_sketch) = (lit 1024, lit 768) \<and>
   (\<exists>s1. session (lit 800) (lit 600) example_events = Inr s1 \<and>
      resolution_value s1 = Some (lit 800, lit 600)) \<and>
   (\<exists>s2. session (lit 800) (lit 600) (example_events @ [Resize (lit 1024) (lit 768)]) =
           Inr s2 \<and>
      device_width s2 = lit 1024 \<and> device_height s2 = lit 768 \<and>
      camera_aspect s2 = fdiv (lit 1024) (lit 768) \<and>
      renderer_size s2 = (lit 1024, lit 768) \<and>
      resolution_value s2 = Some (lit 800, lit 600))"
  by (rule uResolution_written_once)

text \<open>
  Claim C3. A mouse move stores \<open>x = (clientX - left) / width * 2 - 1\<close> and
  \<open>y = -((clientY - top) / height) * 2 + 1\<close>, computed in binary64, in
  \<^verbatim>\<open>mousePosition\<close>, for every event and every rectangle. For a rectangle of
  finite position and positive size the top left corner gives exactly (-1, 1); where
  the computed offsets from that corner are the width and the height the result is
  exactly (1, -1), and where they are half the width and half the height it is exactly
  (0, 0). For a rectangle whose sides are in the normal range, a client position that
  misses the bottom right corner by at most the fraction \<open>d\<close> of the side on each
  axis, \<open>d\<close> at most a quarter, gives a result within \<open>2 * d + 1 / 2 ^ 49\<close> of
  (1, -1), and one that misses the centre by as much gives a result within the same
  distance of (0, 0).
\<close>

theorem pointer_normalised:
  assumes "vec_at (heap s) (mousePosition s) \<noteq> None"
  shows "\<exists>s'. on_mousemove cx cy r s = Inr s' \<and>
           vec_at (heap s') (mousePosition s') =
             Some (fsub (fmul (fdiv (fsub cx (left r)) (width r)) (lit 2)) (lit 1),
                   fadd (fmul (fneg (fdiv (fsub cy (top r)) (height r))) (lit 2)) (lit 1)) \<and>
           (proper_rect r \<longrightarrow>
              (cx = left r \<and> cy = top r \<longrightarrow>
                 vec_at (heap s') (mousePosition s') = Some (lit (- 1), lit 1)) \<and>
              (fsub cx (left r) = width r \<and> fsub cy (top r) = height r \<longrightarrow>
                 vec_at (heap s') (mousePosition s') = Some (lit 1, lit (- 1))) \<and>
              (half_of (fsub cx (left r)) (width r) \<and> half_of (fsub cy (top r)) (height r) \<longrightarrow>
                 vec_at (heap s') (mousePosition s') = Some (lit 0, lit 0))) \<and>
           (normal_side (width r) \<and> normal_side (height r) \<and> d \<le> 1 / 4 \<longrightarrow>
              (near_point 1 d cx (left r) (width r) \<and> near_point 1 d cy (top r) (height r) \<longrightarrow>
                 (\<exists>x y. vec_at (heap s') (mousePosition s') = Some (x, y) \<and>
                    near_value (2 * d + 1 / 2 ^ 49) x 1 \<and>
                    near_value (2 * d + 1 / 2 ^ 49) y (- 1))) \<and>
              (near_point (1 / 2) d cx (left r) (width r) \<and>
               near_point (1 / 2) d cy (top r) (height r) \<longrightarrow>
                 (\<exists>x y. vec_at (heap s') (mousePosition s') = Some (x, y) \<and>
                    near_value (2 * d + 1 / 2 ^ 49) x 0 \<and>
                    near_value (2 * d + 1 / 2 ^ 49) y 0))) \<and>
           (\<exists>s1 s2. session w0 h0 es = Inr s1 \<and>
              session w0 h0 (es @ [MouseMove cx cy r]) = Inr s2 \<and>
              vec_at (heap s2) (mousePosition s2) =
                Some (fsub (fmul (fdiv (fsub cx (left r)) (width r)) (lit 2)) (lit 1),
                      fadd (fmul (fneg (fdiv (fsub cy (top r)) (height r))) (lit 2)) (lit 1)))"
proof -
  have g: "\<exists>s1 s2. session w0 h0 es = Inr s1 \<and>
              session w0 h0 (es @ [MouseMove cx cy r]) = Inr s2 \<and>
              vec_at (heap s2) (mousePosition s2) =
                Some (fsub (fmul (fdiv (fsub cx (left r)) (width r)) (lit 2)) (lit 1),
                      fadd (fmul (fneg (fdiv (fsub cy (top r)) (height r))) (lit 2)) (lit 1))"
  proof -
    from session_then_mousemove[of w0 h0 es cx cy r] obtain s1
      where s1: "session w0 h0 es = Inr s1" "session_inv w0 h0 s1"
        and s2: "session w0 h0 (es @ [MouseMove cx cy r]) = on_mousemove cx cy r s1"
      by blast
    have "vec_at (heap s1) (mousePosition s1) \<noteq> None"
      using s1(2) by (simp add: session_inv_def sketch_ok_def trail_okD(6))
    from on_mousemove_pointer[OF this, of cx cy r] obtain s2
      where "on_mousemove cx cy r s1 = Inr s2"
        and "vec_at (heap s2) (mousePosition s2) = Some (pointer_x cx r, pointer_y cy r)"
      by blast
    with s1(1) s2 show ?thesis by (auto simp: pointer_x_def pointer_y_def)
  qed
  from on_mousemove_pointer[OF assms] obtain s'
    where m: "on_mousemove cx cy r s = Inr s'"
      and v: "vec_at (heap s') (mousePosition s') = Some (pointer_x cx r, pointer_y cy r)"
    by blast
  have f: "vec_at (heap s') (mousePosition s') =
             Some (fsub (fmul (fdiv (fsub cx (left r)) (width r)) (lit 2)) (lit 1),
                   fadd (fmul (fneg (fdiv (fsub cy (top r)) (height r))) (lit 2)) (lit 1))"
    using v by (simp add: pointer_x_def pointer_y_def)
  have c: "vec_at (heap s') (mousePosition s') = Some (lit (- 1), lit 1)"
    if "proper_rect r" "cx = left r" "cy = top r"
    using that v pointer_x_origin[of r] pointer_y_origin[of r] by (simp add: proper_rect_def)
  have d: "vec_at (heap s') (mousePosition s') = Some (lit 1, lit (- 1))"
    if "proper_rect r" "fsub cx (left r) = width r" "fsub cy (top r) = height r"
    using that v pointer_x_far[of r cx] pointer_y_far[of r cy] by (simp add: proper_rect_def)
  have e: "vec_at (heap s') (mousePosition s') = Some (lit 0, lit 0)"
    if "proper_rect r" "half_of (fsub cx (left r)) (width r)"
      "half_of (fsub cy (top r)) (height r)"
    using that v pointer_x_centre[of r cx] pointer_y_centre[of r cy]
    by (simp add: proper_rect_def)
  have n: "\<exists>x y. vec_at (heap s') (mousePosition s') = Some (x, y) \<and>
             near_value (2 * d + 1 / 2 ^ 49) x 1 \<and> near_value (2 * d + 1 / 2 ^ 49) y (- 1)"
    if "normal_side (width r)" "normal_side (height r)" "d \<le> 1 / 4"
      "near_point 1 d cx (left r) (width r)" "near_point 1 d cy (top r) (height r)"
  proof -
    have "near_value (2 * d + 1 / 2 ^ 49) (pointer_x cx r) (2 * 1 - 1)"
      by (rule pointer_x_near[OF that(1,4) _ _ that(3)]) simp_all
    then have x: "near_value (2 * d + 1 / 2 ^ 49) (pointer_x cx r) 1" by simp
    have "near_value (2 * d + 1 / 2 ^ 49) (pointer_y cy r) (1 - 2 * 1)"
      by (rule pointer_y_near[OF that(2,5) _ _ that(3)]) simp_all
    then have y: "near_value (2 * d + 1 / 2 ^ 49) (pointer_y cy r) (- 1)" by simp
    from v x y show ?thesis by blast
  qed
  have h: "\<exists>x y. vec_at (heap s') (mousePosition s') = Some (x, y) \<and>
             near_value (2 * d + 1 / 2 ^ 49) x 0 \<and> near_value (2 * d + 1 / 2 ^ 49) y 0"
    if "normal_side (width r)" "normal_side (height r)" "d \<le> 1 / 4"
      "near_point (1 / 2) d cx (left r) (width r)" "near_point (1 / 2) d cy (top r) (height r)"
  proof -
    have "near_value (2 * d + 1 / 2 ^ 49) (pointer_x cx r) (2 * (1 / 2) - 1)"
      by (rule pointer_x_near[OF that(1,4) _ _ that(3)]) simp_all
    then have x: "near_value (2 * d + 1 / 2 ^ 49) (pointer_x cx r) 0" by simp
    have "near_value (2 * d + 1 / 2 ^ 49) (pointer_y cy r) (1 - 2 * (1 / 2))"
      by (rule pointer_y_near[OF that(2,5) _ _ that(3)]) simp_all
    then have y: "near_value (2 * d + 1 / 2 ^ 49) (pointer_y cy r) 0" by simp
    from v x y show ?thesis by blast
  qed
  from m f c d e n h g show ?thesis by blast
qed

text \<open>
  The three points of the canvas of the concrete session, where the offsets are exact,
  and the corner \<^verbatim>\<open>left + width\<close>, \<^verbatim>\<open>top + height\<close> and the centre
  \<^verbatim>\<open>left + width / 2\<close>, \<^verbatim>\<open>top + height / 2\<close> of the fractional canvas, each
  rounded to binary64: they miss the exact points by less than one part in
  \<open>2 ^ 52\<close> of the side, and \<open>x\<close> comes out as \<open>1 + 1 / 2 ^ 51\<close> and as
  \<open>1 / 2 ^ 52\<close>.
\<close>

theorem pointer_normalised_witness:
  "vec_at (heap example_sketch) (mousePosition example_sketch) \<noteq> None \<and>
   proper_rect example_rect \<and>
   (\<exists>s'. on_mousemove (left example_rect) (top example_rect) example_rect example_sketch =
            Inr s' \<and>
      vec_at (heap s') (mousePosition s') = Some (lit (- 1), lit 1)) \<and>
   fsub (lit 808) (left example_rect) = width example_rect \<and>
   fsub (lit 616) (top example_rect) = height example_rect \<and>
   (\<exists>s'. on_mousemove (lit 808) (lit 616) example_rect example_sketch = Inr s' \<and>
      vec_at (heap s') (mousePosition s') = Some (lit 1, lit (- 1))) \<and>
   half_of (fsub (lit 408) (left example_rect)) (width example_rect) \<and>
   half_of (fsub (lit 316) (top example_rect)) (height example_rect) \<and>
   (\<exists>s'. on_mousemove (lit 408) (lit 316) example_rect example_sketch = Inr s' \<and>
      vec_at (heap s') (mousePosition s') = Some (lit 0, lit 0)) \<and>
   normal_side (width fraction_rect) \<and> normal_side (height fraction_rect) \<and>
   (1 / 2 ^ 52 :: rat) \<le> 1 / 4 \<and>
   near_point 1 (1 / 2 ^ 52) (fadd (left fraction_rect) (width fraction_rect))
     (left fraction_rect) (width fraction_rect) \<and>
   near_point 1 (1 / 2 ^ 52) (fadd (top fraction_rect) (height fraction_rect))
     (top fraction_rect) (height fraction_rect) \<and>
   (\<exists>s'. on_mousemove (fadd (left fraction_rect) (width fraction_rect))
            (fadd (top fraction_rect) (height fraction_rect)) fraction_rect example_sketch =
            Inr s' \<and>
      (\<exists>x y. vec_at (heap s') (mousePosition s') = Some (x, y) \<and>
         near_value (2 * (1 / 2 ^ 52) + 1 / 2 ^ 49) x 1 \<and>
         near_value (2 * (1 / 2 ^ 52) + 1 / 2 ^ 49) y (- 1))) \<and>
   near_point (1 / 2) (1 / 2 ^ 52)
     (fadd (left fraction_rect) (fdiv (width fraction_rect) (lit 2)))
     (left fraction_rect) (width fraction_rect) \<and>
   near_point (1 / 2) (1 / 2 ^ 52)
     (fadd (top fraction_rect) (fdiv (height fraction_rect) (lit 2)))
     (top fraction_rect) (height fraction_rect) \<and>
   (\<exists>s'. on_mousemove (fadd (left fraction_rect) (fdiv (width fraction_rect) (lit 2)))
            (fadd (top fraction_rect) (fdiv (height fraction_rect) (lit 2))) fraction_rect
            example_sketch = Inr s' \<and>
      (\<exists>x y. vec_at (heap s') (mousePosition s') = Some (x, y) \<and>
         near_value (2 * (1 / 2 ^ 52) + 1 / 2 ^ 49) x 0 \<and>
         near_value (2 * (1 / 2 ^ 52) + 1 / 2 ^ 49) y 0)) \<and>
   pointer_x (fadd (left fraction_rect) (width fraction_rect)) fraction_rect =
     Dbl False (1 + 1 / 2 ^ 51) \<and>
   pointer_x (fadd (left fraction_rect) (fdiv (width fraction_rect) (lit 2))) fraction_rect =
     Dbl False (1 / 2 ^ 52)"
proof -
  note m = example_mouse and p = example_rect_proper and o = example_offsets
    and k = fraction_rect_normal and q = fraction_rect_near
  have t: "(1 / 2 ^ 52 :: rat) \<le> 1 / 4" by simp
  have a: "\<exists>s'. on_mousemove (left example_rect) (top example_rect) example_rect
             example_sketch = Inr s' \<and>
      vec_at (heap s') (mousePosition s') = Some (lit (- 1), lit 1)"
    using pointer_normalised[OF m, of "left example_rect" "top example_rect" example_rect] p
    by blast
  have b: "\<exists>s'. on_mousemove (lit 808) (lit 616) example_rect example_sketch = Inr s' \<and>
      vec_at (heap s') (mousePosition s') = Some (lit 1, lit (- 1))"
    using pointer_normalised[OF m, of "lit 808" "lit 616" example_rect] p o(1,2)
    by blast
  have c: "\<exists>s'. on_mousemove (lit 408) (lit 316) example_rect example_sketch = Inr s' \<and>
      vec_at (heap s') (mousePosition s') = Some (lit 0, lit 0)"
    using pointer_normalised[OF m, of "lit 408" "lit 316" example_rect] p o(3,4)
    by blast
  have d: "\<exists>s'. on_mousemove (fadd (left fraction_rect) (width fraction_rect))
            (fadd (top fraction_rect) (height fraction_rect)) fraction_rect example_sketch =
            Inr s' \<and>
      (\<exists>x y. vec_at (heap s') (mousePosition s') = Some (x, y) \<and>
         near_value (2 * (1 / 2 ^ 52) + 1 / 2 ^ 49) x 1 \<and>
         near_value (2 * (1 / 2 ^ 52) + 1 / 2 ^ 49) y (- 1))"
    using pointer_normalised[OF m, of "fadd (left fraction_rect) (width fraction_rect)"
        "fadd (top fraction_rect) (height fraction_rect)" fraction_rect "1 / 2 ^ 52"]
      k t q(1,2)
    by blast
  have e: "\<exists>s'. on_mousemove (fadd (left fraction_rect) (fdiv (width fraction_rect) (lit 2)))
            (fadd (top fraction_rect) (fdiv (height fraction_rect) (lit 2))) fraction_rect
            example_sketch = Inr s' \<and>
      (\<exists>x y. vec_at (heap s') (mousePosition s') = Some (x, y) \<and>
         near_value (2 * (1 / 2 ^ 52) + 1 / 2 ^ 49) x 0 \<and>
         near_value (2 * (1 / 2 ^ 52) + 1 / 2 ^ 49) y 0)"
    using pointer_normalised[OF m,
        of "fadd (left fraction_rect) (fdiv (width fraction_rect) (lit 2))"
        "fadd (top fraction_rect) (fdiv (height fraction_rect) (lit 2))" fraction_rect
        "1 / 2 ^ 52"]
      k t q(3,4)
    by blast
  from m p a o(1,2) b o(3,4) c k t q(1,2) d q(3,4) e
    pointer_x_fraction_corner pointer_x_fraction_centre
  show ?thesis by (intro conjI)
qed

text \<open>
  The tolerance cannot be a constant: it grows with the position of the rectangle
  relative to its side. The unit square at \<open>2 ^ 60\<close> has its right side at
  \<open>2 ^ 60 + 1\<close>, which is no binary64 value; \<^verbatim>\<open>left + width\<close> rounds to
  \<open>2 ^ 60\<close>, where \<open>x\<close> is -1, and the next binary64 value is
  \<open>2 ^ 60 + 256\<close>, where \<open>x\<close> is 511. Neither is within 1 of the value 1
  that the specification gives the corner.
\<close>

theorem pointer_corner_far_off:
  "proper_rect far_rect \<and> normal_side (width far_rect) \<and>
   is_number (left far_rect) \<and> is_number (width far_rect) \<and>
   fadd (left far_rect) (width far_rect) = Dbl False (2 ^ 60) \<and>
   pointer_x (Dbl False (2 ^ 60)) far_rect = lit (- 1) \<and>
   \<not> near_value 1 (pointer_x (Dbl False (2 ^ 60)) far_rect) 1 \<and>
   is_number (Dbl False (2 ^ 60 + 256)) \<and>
   pointer_x (Dbl False (2 ^ 60 + 256)) far_rect = Dbl False 511 \<and>
   \<not> near_value 1 (pointer_x (Dbl False (2 ^ 60 + 256)) far_rect) 1"
proof -
  have "is_number (left far_rect)" "is_number (width far_rect)"
    "is_number (Dbl False (2 ^ 60 + 256))"
    using is_double_far round_mag_1 by (simp_all add: far_rect_sides is_double_def)
  moreover have "\<not> near_value 1 (pointer_x (Dbl False (2 ^ 60)) far_rect) 1"
    unfolding pointer_x_far_rect_below by (simp add: sval_def)
  moreover have "\<not> near_value 1 (pointer_x (Dbl False (2 ^ 60 + 256)) far_rect) 1"
    unfolding pointer_x_far_rect_above by (simp add: sval_def)
  moreover have "pointer_x (Dbl False (2 ^ 60)) far_rect = lit (- 1)"
    unfolding pointer_x_far_rect_below by (simp add: lit_minus_1)
  ultimately show ?thesis
    using far_rect_proper far_rect_corner pointer_x_far_rect_above by (intro conjI)
qed

text \<open>
  Claim C5. \<^verbatim>\<open>time\<close> starts at 0; each run of \<^verbatim>\<open>render\<close>, the one of the
  constructor and one per animation frame, adds the binary64 value of \<^verbatim>\<open>0.01\<close>
  once, and no other event touches it. The value never decreases and never exceeds
  \<open>2 ^ 47\<close>. After \<open>k\<close> runs, for \<open>k\<close> up to \<open>2 ^ 52\<close>, it differs from
  \<open>k / 100\<close> by at most the fraction \<open>(k + 1) / 2 ^ 52\<close> of it.
\<close>

theorem frame_time_clock:
  "time (initial_fields w h) = lit 0 \<and> lit 0 = Dbl False 0 \<and>
   (\<exists>s. session w h es = Inr s \<and> time s = frame_time (Suc (ticks es))) \<and>
   frame_time (Suc k) = fadd (frame_time k) (lit (1 / 100)) \<and>
   lit (1 / 100) = Dbl False (5764607523034235 / 2 ^ 59) \<and>
   fle (frame_time k) (frame_time (Suc k)) \<and>
   fle (frame_time k) (Dbl False (2 ^ 47)) \<and>
   (k \<le> 2 ^ 52 \<longrightarrow> close_to (of_nat (k + 1) / 2 ^ 52) (frame_time k) (of_nat k / 100))"
proof -
  have a: "time (initial_fields w h) = lit 0" by (simp add: fields_eq)
  have b: "lit (1 / 100) = Dbl False (5764607523034235 / 2 ^ 59)"
    by (simp add: lit_hundredth step_value_def)
  show ?thesis
    using a lit_0 session_time[of w h es] b frame_time_mono[of k] frame_time_bounded[of k]
      frame_time_tolerance[of k]
    by (simp del: frame_time.simps add: frame_time.simps(2)[of k])
qed

text \<open>A hundred frames: the clock is within \<open>101 / 2 ^ 52\<close> of 1.\<close>

theorem frame_time_clock_witness:
  "(100::nat) \<le> 2 ^ 52 \<and>
   time (initial_fields (lit 800) (lit 600)) = lit 0 \<and> lit 0 = Dbl False 0 \<and>
   (\<exists>s. session (lit 800) (lit 600) example_events = Inr s \<and>
      time s = frame_time (Suc (ticks example_events))) \<and>
   frame_time (Suc 100) = fadd (frame_time 100) (lit (1 / 100)) \<and>
   lit (1 / 100) = Dbl False (5764607523034235 / 2 ^ 59) \<and>
   fle (frame_time 100) (frame_time (Suc 100)) \<and>
   fle (frame_time 100) (Dbl False (2 ^ 47)) \<and>
   close_to (of_nat (100 + 1) / 2 ^ 52) (frame_time 100) (of_nat 100 / 100)"
proof -
  have h: "(100::nat) \<le> 2 ^ 52" by simp
  from frame_time_clock[of "lit 800" "lit 600" example_events 100] h
  show ?thesis by blast
qed

text \<open>
  Without a bound on \<open>k\<close> the clock does not follow \<open>k / 100\<close>: it stops at
  \<open>2 ^ 47\<close>, where the step is less than half the spacing of binary64, so that after
  \<open>2 * 10 ^ 16\<close> frames it is more than a quarter below \<open>2 * 10 ^ 14\<close>.
\<close>

theorem frame_time_saturates:
  "\<not> close_to (1 / 4) (frame_time 20000000000000000) (20000000000000000 / 100)"
proof
  assume c: "close_to (1 / 4) (frame_time 20000000000000000) (20000000000000000 / 100)"
  from frame_time_finite[of 20000000000000000] obtain t
    where t: "frame_time 20000000000000000 = Dbl False t" and hi: "t \<le> 2 ^ 47" by blast
  from c have "\<bar>t - 20000000000000000 / 100\<bar> \<le> 1 / 4 * \<bar>20000000000000000 / 100\<bar>"
    by (simp only: t close_to.simps sval_def if_False)
  then have "150000000000000 \<le> t" by (simp add: abs_le_iff)
  with hi show False by simp
qed

text \<open>
  Claim C7. A mouse move stores the two computed components as they are, and the next
  call of \<^verbatim>\<open>updatePointerTrail\<close> copies them unchanged into slot 0: nothing
  clamps them. A component lies outside the interval from -1 to 1 whenever the pointer
  is outside the rectangle along its axis by at least one part in \<open>2 ^ 52\<close> of the
  side: \<open>x > 1\<close> right of the rectangle, \<open>x < -1\<close> left of it, \<open>y < -1\<close> below it,
  \<open>y > 1\<close> above it.
\<close>

theorem pointer_outside_uncapped:
  assumes "trail_ok s"
  shows "\<exists>s' s''. on_mousemove cx cy r s = Inr s' \<and>
           vec_at (heap s') (mousePosition s') = Some (pointer_x cx r, pointer_y cy r) \<and>
           updatePointerTrail s' = Inr s'' \<and>
           trail_values s'' ! 0 = Some (pointer_x cx r, pointer_y cy r) \<and>
           (beyond (fsub cx (left r)) (width r) \<longrightarrow>
              flt (lit 1) (pointer_x cx r) \<and> \<not> in_unit (pointer_x cx r)) \<and>
           (before (fsub cx (left r)) (width r) \<longrightarrow>
              flt (pointer_x cx r) (lit (- 1)) \<and> \<not> in_unit (pointer_x cx r)) \<and>
           (beyond (fsub cy (top r)) (height r) \<longrightarrow>
              flt (pointer_y cy r) (lit (- 1)) \<and> \<not> in_unit (pointer_y cy r)) \<and>
           (before (fsub cy (top r)) (height r) \<longrightarrow>
              flt (lit 1) (pointer_y cy r) \<and> \<not> in_unit (pointer_y cy r))"
proof -
  from trail_head_after_move[OF assms, of cx cy r] obtain s' s''
    where a: "on_mousemove cx cy r s = Inr s'"
      "vec_at (heap s') (mousePosition s') = Some (pointer_x cx r, pointer_y cy r)"
      "updatePointerTrail s' = Inr s''"
      "trail_values s'' ! 0 = Some (pointer_x cx r, pointer_y cy r)"
    by blast
  have b: "flt (lit 1) (pointer_x cx r) \<and> \<not> in_unit (pointer_x cx r)"
    if "beyond (fsub cx (left r)) (width r)"
    using pointer_x_beyond[OF that] flt_not_in_unit(1) by blast
  have c: "flt (pointer_x cx r) (lit (- 1)) \<and> \<not> in_unit (pointer_x cx r)"
    if "before (fsub cx (left r)) (width r)"
    using pointer_x_before[OF that] flt_not_in_unit(2) by blast
  have d: "flt (pointer_y cy r) (lit (- 1)) \<and> \<not> in_unit (pointer_y cy r)"
    if "beyond (fsub cy (top r)) (height r)"
    using pointer_y_beyond[OF that] flt_not_in_unit(2) by blast
  have e: "flt (lit 1) (pointer_y cy r) \<and> \<not> in_unit (pointer_y cy r)"
    if "before (fsub cy (top r)) (height r)"
    using pointer_y_before[OF that] flt_not_in_unit(1) by blast
  from a b c d e show ?thesis by blast
qed

text \<open>The pointer right of and below the canvas of the concrete session, then left of and above it.\<close>

theorem pointer_outside_uncapped_witness:
  "trail_ok example_sketch \<and>
   beyond (fsub (lit 1008) (left example_rect)) (width example_rect) \<and>
   beyond (fsub (lit 716) (top example_rect)) (height example_rect) \<and>
   (\<exists>s' s''. on_mousemove (lit 1008) (lit 716) example_rect example_sketch = Inr s' \<and>
      vec_at (heap s') (mousePosition s') =
        Some (pointer_x (lit 1008) example_rect, pointer_y (lit 716) example_rect) \<and>
      updatePointerTrail s' = Inr s'' \<and>
      trail_values s'' ! 0 =
        Some (pointer_x (lit 1008) example_rect, pointer_y (lit 716) example_rect) \<and>
      flt (lit 1) (pointer_x (lit 1008) example_rect) \<and>
      flt (pointer_y (lit 716) example_rect) (lit (- 1))) \<and>
   before (fsub (lit 0) (left example_rect)) (width example_rect) \<and>
   before (fsub (lit 0) (top example_rect)) (height example_rect) \<and>
   (\<exists>s' s''. on_mousemove (lit 0) (lit 0) example_rect example_sketch = Inr s' \<and>
      vec_at (heap s') (mousePosition s') =
        Some (pointer_x (lit 0) example_rect, pointer_y (lit 0) example_rect) \<and>
      updatePointerTrail s' = Inr s'' \<and>
      trail_values s'' ! 0 =
        Some (pointer_x (lit 0) example_rect, pointer_y (lit 0) example_rect) \<and>
      flt (pointer_x (lit 0) example_rect) (lit (- 1)) \<and>
      flt (lit 1) (pointer_y (lit 0) example_rect))"
proof -
  note ok = example_trail_ok and o = example_outside
  have a: "\<exists>s' s''. on_mousemove (lit 1008) (lit 716) example_rect example_sketch = Inr s' \<and>
      vec_at (heap s') (mousePosition s') =
        Some (pointer_x (lit 1008) example_rect, pointer_y (lit 716) example_rect) \<and>
      updatePointerTrail s' = Inr s'' \<and>
      trail_values s'' ! 0 =
        Some (pointer_x (lit 1008) example_rect, pointer_y (lit 716) example_rect) \<and>
      flt (lit 1) (pointer_x (lit 1008) example_rect) \<and>
      flt (pointer_y (lit 716) example_rect) (lit (- 1))"
    using pointer_outside_uncapped[OF ok, of "lit 1008" "lit 716" example_rect] o(1,2)
    by blast
  have b: "\<exists>s' s''. on_mousemove (lit 0) (lit 0) example_rect example_sketch = Inr s' \<and>
      vec_at (heap s') (mousePosition s') =
        Some (pointer_x (lit 0) example_rect, pointer_y (lit 0) example_rect) \<and>
      updatePointerTrail s' = Inr s'' \<and>
      trail_values s'' ! 0 =
        Some (pointer_x (lit 0) example_rect, pointer_y (lit 0) example_rect) \<and>
      flt (pointer_x (lit 0) example_rect) (lit (- 1)) \<and>
      flt (lit 1) (pointer_y (lit 0) example_rect)"
    using pointer_outside_uncapped[OF ok, of "lit 0" "lit 0" example_rect] o(3,4)
    by blast
  from ok o(1,2) a o(3,4) b show ?thesis by (intro conjI)
qed

text \<open>
  A pointer outside the rectangle need not give components outside the interval. At
  (150, 50) over the square the pointer is right of it and \<open>y\<close> is 0. At (8, 50) over
  the shifted canvas the pointer is left of it by \<open>1 / 2 ^ 49\<close> and \<open>x\<close> rounds to
  -1.
\<close>

theorem pointer_outside_in_range:
  "outside (lit 150) (lit 50) square_rect \<and>
   in_unit (pointer_y (lit 50) square_rect) \<and>
   is_number (left shifted_rect) \<and>
   outside (lit 8) (lit 50) shifted_rect \<and>
   in_unit (pointer_x (lit 8) shifted_rect)"
  by (simp add: outside_square outside_shifted is_number_shifted pointer_y_square
      pointer_x_shifted in_unit_def lit_1 lit_minus_1 sval_def)

end
